theory Spec2Isabelle
  imports Complex_Main "HOL-Library.Log_Nat" "HOL-Library.Word"
begin

section \<open>JavaScript numbers\<close>

text \<open>
  A JavaScript number is an IEEE 754 binary64 value.  A finite one is the real number it
  denotes; every arithmetic operator computes the exact result and rounds it to the nearest
  binary64 value, ties to the even significand.  \<open>fl\<close> is that rounding: the unit in the last
  place of \<open>x\<close> is \<open>2 powi (e - 52)\<close> for the binade \<open>2 powi e \<le> \<bar>x\<bar> < 2 powi (e + 1)\<close>,
  with \<open>e\<close> held at \<open>-1022\<close> in the subnormal range.  Overflow to \<open>Infinity\<close> (a result of
  magnitude \<open>2 ^ 1024\<close> or more) is not part of \<open>fl\<close>; the only non-finite numbers of
  \<open>visualizer.js\<close> come from a division by zero or an \<open>undefined\<close> operand, and those are
  values of \<open>jsnum\<close>.
\<close>

definition round_even :: "real \<Rightarrow> int" where
  "round_even q =
     (let f = \<lfloor>q\<rfloor>; r = q - of_int f
      in if r < 1 / 2 then f else if 1 / 2 < r then f + 1 else if even f then f else f + 1)"

definition ilog2 :: "real \<Rightarrow> int" where
  "ilog2 a = (if 1 \<le> a then bitlen \<lfloor>a\<rfloor> - 1 else - bitlen (\<lceil>1 / a\<rceil> - 1))"

definition fl :: "real \<Rightarrow> real" where
  "fl a =
     (if a = 0 then 0
      else let u = 2 powi (max (ilog2 \<bar>a\<bar>) (- 1022) - 52)
           in of_int (round_even (a / u)) * u)"

definition js_add :: "real \<Rightarrow> real \<Rightarrow> real" where
  "js_add a b = fl (a + b)"

definition js_sub :: "real \<Rightarrow> real \<Rightarrow> real" where
  "js_sub a b = fl (a - b)"

definition js_mul :: "real \<Rightarrow> real \<Rightarrow> real" where
  "js_mul a b = fl (a * b)"

text \<open>\<open>a / b\<close> for a divisor that is not zero.\<close>

definition js_div :: "real \<Rightarrow> real \<Rightarrow> real" where
  "js_div a b = fl (a / b)"

text \<open>\<open>Math.trunc\<close>, and the remainder \<open>a % b\<close> (the sign of the dividend, always exact).\<close>

definition js_trunc :: "real \<Rightarrow> int" where
  "js_trunc a = (if 0 \<le> a then \<lfloor>a\<rfloor> else \<lceil>a\<rceil>)"

definition js_rem :: "real \<Rightarrow> real \<Rightarrow> real" where
  "js_rem a b = a - b * of_int (js_trunc (a / b))"

datatype jsnum = NaN | PosInf | NegInf | Fin real

text \<open>\<open>a / b\<close> where \<open>b\<close> may be \<open>+0\<close>, and the product of the quotient with a positive constant.\<close>

definition js_quot :: "real \<Rightarrow> real \<Rightarrow> jsnum" where
  "js_quot a b =
     (if b = 0 then (if a = 0 then NaN else if 0 < a then PosInf else NegInf)
      else Fin (js_div a b))"

definition jsnum_scale :: "jsnum \<Rightarrow> real \<Rightarrow> jsnum" where
  "jsnum_scale q c = (case q of Fin a \<Rightarrow> Fin (js_mul a c) | other \<Rightarrow> other)"

section \<open>Typed arrays\<close>

type_synonym uint8 = "8 word"

text \<open>
  Reading \<open>array[k]\<close> with a number as key: an element when \<open>k\<close> is an integer index inside
  the array, \<open>undefined\<close> (here \<open>None\<close>) for every other key.  It never raises.
\<close>

definition js_get :: "'a list \<Rightarrow> real \<Rightarrow> 'a option" where
  "js_get xs k =
     (if of_int \<lfloor>k\<rfloor> = k \<and> 0 \<le> k \<and> nat \<lfloor>k\<rfloor> < length xs then Some (xs ! nat \<lfloor>k\<rfloor>)
      else None)"

text \<open>
  Storing a number into a \<open>Uint8Array\<close>: \<open>NaN\<close> and the infinities become 0, every other
  number is truncated towards zero and taken modulo 256.
\<close>

definition toUint8 :: "jsnum \<Rightarrow> uint8" where
  "toUint8 v = (case v of Fin a \<Rightarrow> word_of_int (js_trunc a) | other \<Rightarrow> 0)"

text \<open>
  \<open>analyser.getByteFrequencyData(array)\<close> and \<open>getByteTimeDomainData(array)\<close> overwrite
  the array in place with the analyser's current data: surplus data is dropped, surplus
  array elements keep their value.
\<close>

definition copy_into :: "uint8 list \<Rightarrow> uint8 list \<Rightarrow> uint8 list" where
  "copy_into src dst = take (length dst) src @ drop (length src) dst"

section \<open>The visualizer\<close>

datatype error = TypeError

text \<open>
  A color is the string that \<open>getColor\<close> builds; a number is printed so that distinct
  numbers give distinct strings, so the string is kept as the numbers it was built from.
  \<open>Hsl h s l\<close> is \<open>hsl(h, s%, l%)\<close>, \<open>Rgb r g b\<close> is \<open>rgb(r, g, b)\<close>, and \<open>Undefined\<close> is
  the value \<open>undefined\<close>, which \<open>neonColors[index % 3]\<close> gives for a key outside 0, 1, 2.
\<close>

datatype color = Hsl jsnum nat real | Rgb real real real | Undefined

record particle =
  x :: real
  y :: real
  vx :: real
  vy :: real
  size_px :: real
  color :: color
  life :: real

text \<open>
  The fields of \<open>AudioVisualizer\<close> that the drawing code reads and writes.
  \<open>canvas_width\<close> and \<open>canvas_height\<close> are \<open>this.canvas.width\<close> and \<open>this.canvas.height\<close>
  (unsigned 32-bit attributes), \<open>visualMode\<close> and \<open>colorScheme\<close> the values of the two
  select elements.  \<open>setupAudioAPI\<close> sets \<open>analyser\<close>, \<open>bufferLength\<close> (the analyser's
  \<open>frequencyBinCount\<close>, an unsigned 32-bit attribute) and \<open>dataArray\<close>, or none of them when
  it catches an error: \<open>None\<close> is \<open>undefined\<close>.  \<open>currentVisualData\<close> is \<open>undefined\<close> until
  \<open>getVisualData\<close> has run.  The 2D context is a separate object; what is painted on it is
  not part of the record.
\<close>

record visualizer =
  canvas_width :: "32 word"
  canvas_height :: "32 word"
  visualMode :: string
  colorScheme :: string
  particles :: "particle list"
  analyser :: bool
  bufferLength :: "32 word option"
  dataArray :: "uint8 list option"
  currentVisualData :: "uint8 list option"

subsection \<open>getVisualData\<close>

text \<open>
  One sample of the loop body: \<open>binIndex\<close> is \<open>NaN\<close> when \<open>bufferLength\<close> is \<open>undefined\<close>,
  the element read is \<open>undefined\<close> outside the array, and \<open>undefined * 1.5\<close> is \<open>NaN\<close>,
  which \<open>Math.min\<close> returns unchanged.
\<close>

definition amplified :: "32 word option \<Rightarrow> uint8 list \<Rightarrow> nat \<Rightarrow> jsnum" where
  "amplified bl d i =
     (let sampleSize = 128;
          amplification = 3 / 2;
          binIndex = (case bl of None \<Rightarrow> None
                      | Some m \<Rightarrow> Some (of_int \<lfloor>js_mul (js_div (real i) sampleSize)
                                                       (js_div (real (unat m)) 2)\<rfloor>))
      in case (case binIndex of None \<Rightarrow> None | Some k \<Rightarrow> js_get d k) of
           None \<Rightarrow> NaN
         | Some v \<Rightarrow> Fin (min 255 (js_mul (real (unat v)) amplification)))"

text \<open>
  \<open>this.dataArray[binIndex]\<close> raises a \<open>TypeError\<close> in the first pass of the loop when
  \<open>dataArray\<close> is \<open>undefined\<close>, before anything is stored.
\<close>

definition getVisualData :: "visualizer \<Rightarrow> (error + uint8 list) \<times> visualizer" where
  "getVisualData st =
     (case dataArray st of
        None \<Rightarrow> (Inl TypeError, st)
      | Some d \<Rightarrow>
          let visualData =
                fold (\<lambda>i vd. vd[i := toUint8 (amplified (bufferLength st) d i)])
                  [0..<128] (replicate 128 0)
          in (Inr visualData, st\<lparr>currentVisualData := Some visualData\<rparr>))"

subsection \<open>getColor\<close>

text \<open>
  \<open>this.currentVisualData || this.dataArray\<close>: the cached visual data once
  \<open>getVisualData\<close> has stored it, the raw frame before.
\<close>

definition dataSource :: "visualizer \<Rightarrow> uint8 list option" where
  "dataSource st = (case currentVisualData st of Some c \<Rightarrow> Some c | None \<Rightarrow> dataArray st)"

text \<open>
  \<open>dataSource[index]\<close> raises a \<open>TypeError\<close> when both arrays are \<open>undefined\<close>; a read
  outside the array gives \<open>undefined\<close>, which \<open>|| 0\<close> turns into 0.
\<close>

definition getColor :: "visualizer \<Rightarrow> real \<Rightarrow> real \<Rightarrow> error + color" where
  "getColor st index tot =
     (let scheme = colorScheme st;
          hue = jsnum_scale (js_quot index tot) 360
      in case dataSource st of
           None \<Rightarrow> Inl TypeError
         | Some ds \<Rightarrow>
             let value = (case js_get ds index of Some v \<Rightarrow> real (unat v) | None \<Rightarrow> 0);
                 intensity = js_div value 255
             in Inr
                 (if scheme = ''rainbow'' then
                    Hsl hue 100 (js_add 60 (js_mul intensity 40))
                  else if scheme = ''fire'' then
                    Hsl (Fin (js_add 0 (js_mul 60 intensity))) 100 (js_add 50 (js_mul intensity 40))
                  else if scheme = ''ocean'' then
                    Hsl (Fin (js_add 180 (js_mul 60 intensity))) 90 (js_add 50 (js_mul intensity 40))
                  else if scheme = ''neon'' then
                    (let k = js_rem index 3
                     in if k = 0 then Rgb (js_mul 255 intensity) 0 (js_mul 255 intensity)
                        else if k = 1 then Rgb 0 (js_mul 255 intensity) (js_mul 255 intensity)
                        else if k = 2 then Rgb (js_mul 255 intensity) (js_mul 255 intensity) 0
                        else Undefined)
                  else if scheme = ''purple'' then
                    Hsl (Fin (js_add 270 (js_mul intensity 60))) 90 (js_add 50 (js_mul intensity 40))
                  else Hsl hue 100 50))"

subsection \<open>The render strategies\<close>

text \<open>
  \<open>drawBars\<close> and \<open>drawCircular\<close> call \<open>getVisualData\<close> and then paint on the 2D
  context with colors from \<open>getColor\<close>, which reads the array that \<open>getVisualData\<close> has
  just stored and so cannot raise there.  Their effect on the visualizer is that of
  \<open>getVisualData\<close>.
\<close>

definition drawBars :: "visualizer \<Rightarrow> error option \<times> visualizer" where
  "drawBars st =
     (case getVisualData st of
        (Inl e, st') \<Rightarrow> (Some e, st')
      | (Inr visualData, st') \<Rightarrow> (None, st'))"

definition drawCircular :: "visualizer \<Rightarrow> error option \<times> visualizer" where
  "drawCircular st =
     (case getVisualData st of
        (Inl e, st') \<Rightarrow> (Some e, st')
      | (Inr visualData, st') \<Rightarrow> (None, st'))"

text \<open>
  \<open>drawWaveform\<close> changes no field of the visualizer.  Its result is what it hands to the
  2D context: the points of the main polyline, the three gradient colors, the shadow color
  and the points of the mirrored polyline.  \<open>this.dataArray.length\<close> raises a \<open>TypeError\<close>
  when \<open>dataArray\<close> is \<open>undefined\<close>.  With an empty array no point is computed and
  \<open>sliceWidth\<close> (then not a finite number) is not used.
\<close>

record waveform =
  main_path :: "(real \<times> real) list"
  stops :: "color list"
  shadowColor :: color
  mirror_path :: "(real \<times> real) list"

definition drawWaveform :: "visualizer \<Rightarrow> error + waveform" where
  "drawWaveform st =
     (case dataArray st of
        None \<Rightarrow> Inl TypeError
      | Some d \<Rightarrow>
          let bufferLength = real (length d);
              width = real (unat (canvas_width st));
              height = real (unat (canvas_height st));
              sliceWidth = js_div width bufferLength;
              main = map (\<lambda>i. let v = js_div (real (unat (d ! i))) 128
                                in (js_mul (real i) sliceWidth, js_div (js_mul v height) 2))
                       [0..<length d];
              mirror = map (\<lambda>i. let v = js_div (real (unat (d ! i))) 128
                                  in (js_mul (real i) sliceWidth,
                                      js_sub height (js_div (js_mul v height) 2)))
                         [0..<length d]
          in case getColor st 0 bufferLength of
               Inl e \<Rightarrow> Inl e
             | Inr c0 \<Rightarrow>
                 (case getColor st (js_div bufferLength 2) bufferLength of
                    Inl e \<Rightarrow> Inl e
                  | Inr c1 \<Rightarrow>
                      (case getColor st (js_sub bufferLength 1) bufferLength of
                         Inl e \<Rightarrow> Inl e
                       | Inr c2 \<Rightarrow>
                           Inr \<lparr>main_path = main, stops = [c0, c1, c2], shadowColor = c1,
                                mirror_path = mirror\<rparr>)))"

subsection \<open>The particle field\<close>

text \<open>
  \<open>Math.random()\<close> is an input: a stream of numbers in the interval from 0 (included) to 1
  (excluded), read from position 0 on.
\<close>

type_synonym rng = "nat \<Rightarrow> real"

text \<open>
  The spawn loop, three passes when it runs.  A pass reads one random number for the sample
  and, when the sample is above 80, five more for the new particle, in the order of the
  object literal.  \<open>undefined > 80\<close> is false.
\<close>

fun spawn_loop :: "nat \<Rightarrow> uint8 list \<Rightarrow> rng \<Rightarrow> visualizer \<Rightarrow> error option \<times> visualizer" where
  "spawn_loop 0 visualData r st = (None, st)"
| "spawn_loop (Suc n) visualData r st =
     (let bufferLength = real (length visualData);
          value = js_get visualData (of_int \<lfloor>js_mul (r 0) bufferLength\<rfloor>)
      in if (case value of None \<Rightarrow> False | Some v \<Rightarrow> 80 < unat v) then
           (case getColor st (of_int \<lfloor>js_mul (r 5) bufferLength\<rfloor>) bufferLength of
              Inl e \<Rightarrow> (Some e, st)
            | Inr c \<Rightarrow>
                spawn_loop n visualData (\<lambda>k. r (k + 6))
                  (st\<lparr>particles := particles st @
                     [\<lparr>x = js_mul (r 1) (real (unat (canvas_width st))),
                       y = real (unat (canvas_height st)),
                       vx = js_mul (js_sub (r 2) (1 / 2)) 4,
                       vy = - js_add (js_mul (r 3) 5) 3,
                       size_px = js_add (js_mul (r 4) 4) 2,
                       color = c,
                       life = 1\<rparr>]\<rparr>))
         else spawn_loop n visualData (\<lambda>k. r (k + 1)) st)"

text \<open>The four assignments of the update; \<open>0.1\<close> and \<open>0.01\<close> are the nearest binary64 numbers.\<close>

definition update_particle :: "particle \<Rightarrow> particle" where
  "update_particle p =
     p\<lparr>x := js_add (x p) (vx p),
       y := js_add (y p) (vy p),
       vy := js_add (vy p) (fl (1 / 10)),
       life := js_sub (life p) (fl (1 / 100))\<rparr>"

text \<open>
  The update loop runs \<open>i\<close> from \<open>particles.length - 1\<close> down to 0; \<open>particle_loop h n ps\<close>
  is the loop with \<open>n = i + 1\<close> passes left.  A pass updates \<open>particles[i]\<close> in place and
  splices it out when it is dead: its life is used up, or it is below the bottom edge
  \<open>h\<close> of the canvas.  \<open>i\<close> stays inside the array: a splice at \<open>i\<close> shortens
  it by one, and the next index is \<open>i - 1\<close>.
\<close>

definition dead :: "real \<Rightarrow> particle \<Rightarrow> bool" where
  "dead h p \<longleftrightarrow> life p \<le> 0 \<or> h < y p"

fun particle_loop :: "real \<Rightarrow> nat \<Rightarrow> particle list \<Rightarrow> particle list" where
  "particle_loop h 0 ps = ps"
| "particle_loop h (Suc i) ps =
     (let p = update_particle (ps ! i)
      in if dead h p then particle_loop h i (take i ps @ drop (Suc i) ps)
         else particle_loop h i (ps[i := p]))"

definition update_and_cull :: "real \<Rightarrow> particle list \<Rightarrow> particle list" where
  "update_and_cull h ps = particle_loop h (length ps) ps"

text \<open>
  \<open>drawParticles\<close>: the reducer, the spawn loop behind its guard, the update loop, and the
  background bars, which only paint.
\<close>

definition drawParticles :: "rng \<Rightarrow> visualizer \<Rightarrow> error option \<times> visualizer" where
  "drawParticles r st =
     (case getVisualData st of
        (Inl e, st1) \<Rightarrow> (Some e, st1)
      | (Inr visualData, st1) \<Rightarrow>
          (case (if length (particles st1) < 100 then spawn_loop 3 visualData r st1
                 else (None, st1)) of
             (Some e, st2) \<Rightarrow> (Some e, st2)
           | (None, st2) \<Rightarrow>
               (None, st2\<lparr>particles :=
                  update_and_cull (real (unat (canvas_height st2))) (particles st2)\<rparr>)))"

subsection \<open>The frame scheduler and the mode selector\<close>

text \<open>
  One tick.  Its inputs are what the analyser holds for each domain and the random stream.
  The result is the error the tick raised, if any, with the visualizer as the tick left it:
  the next frame was requested before anything else, so the loop goes on after an error.
\<close>

record tick_input =
  timeDomain :: "uint8 list"
  frequency :: "uint8 list"
  random :: rng

text \<open>
  The head of \<open>animate\<close>: with an analyser, \<open>dataArray\<close> is overwritten with the data of the
  domain that the mode asks for; passing an \<open>undefined\<close> array raises a \<open>TypeError\<close>.
\<close>

definition refreshed :: "tick_input \<Rightarrow> visualizer \<Rightarrow> error + visualizer" where
  "refreshed inp st =
     (if analyser st then
        (case dataArray st of
           None \<Rightarrow> Inl TypeError
         | Some d \<Rightarrow>
             Inr (st\<lparr>dataArray :=
                    Some (copy_into (if visualMode st = ''waveform'' then timeDomain inp
                                     else frequency inp) d)\<rparr>))
      else Inr st)"

definition animate :: "tick_input \<Rightarrow> visualizer \<Rightarrow> error option \<times> visualizer" where
  "animate inp st =
     (case refreshed inp st of
        Inl e \<Rightarrow> (Some e, st)
      | Inr st1 \<Rightarrow>
          let mode = visualMode st1
          in if mode = ''bars'' then drawBars st1
             else if mode = ''circular'' then drawCircular st1
             else if mode = ''waveform'' then
               (case drawWaveform st1 of Inl e \<Rightarrow> (Some e, st1) | Inr w \<Rightarrow> (None, st1))
             else if mode = ''particles'' then drawParticles (random inp) st1
             else (None, st1))"

text \<open>
  A change of the mode selector: the select element takes the new value, then the
  \<open>change\<close> listener registered by \<open>initializeEventListeners\<close> empties the pool.
\<close>

definition visualMode_change :: "string \<Rightarrow> visualizer \<Rightarrow> visualizer" where
  "visualMode_change m st = (st\<lparr>visualMode := m\<rparr>)\<lparr>particles := []\<rparr>"

text \<open>
  A run is a sequence of frames and mode changes.  An error ends its own tick only, so the
  run goes on from the visualizer as the failed tick left it.
\<close>

datatype event = Frame tick_input | Select string

fun run :: "event list \<Rightarrow> visualizer \<Rightarrow> visualizer" where
  "run [] st = st"
| "run (Frame inp # es) st = run es (snd (animate inp st))"
| "run (Select m # es) st = run es (visualMode_change m st)"

text \<open>
  \<open>no_particle_tick es m\<close>: in the run \<open>es\<close>, started in mode \<open>m\<close>, no frame is drawn by
  the particle-field strategy.
\<close>

fun no_particle_tick :: "event list \<Rightarrow> string \<Rightarrow> bool" where
  "no_particle_tick [] m = True"
| "no_particle_tick (Frame inp # es) m = (m \<noteq> ''particles'' \<and> no_particle_tick es m)"
| "no_particle_tick (Select m' # es) m = no_particle_tick es m'"

subsection \<open>The pool inside a tick\<close>

text \<open>
  The update loop of a particle-field tick works on the pool as the spawn loop of the same
  tick has left it.  \<open>spawned_pool r st\<close> is that pool inside \<open>drawParticles\<close>: the pool of
  the visualizer followed by the particles that the spawn loop, behind its guard, has
  appended.  \<open>tick_pool inp st\<close> is the same pool inside a tick, after the head of \<open>animate\<close>
  has refreshed the frame.  A particle created in a tick is in \<open>tick_pool\<close> of that tick
  with its life of 1, and its first update is in that tick.
\<close>

definition spawned_pool :: "rng \<Rightarrow> visualizer \<Rightarrow> particle list" where
  "spawned_pool r st =
     (case getVisualData st of
        (Inl e, st1) \<Rightarrow> particles st1
      | (Inr visualData, st1) \<Rightarrow>
          particles (snd (if length (particles st1) < 100 then spawn_loop 3 visualData r st1
                          else (None, st1))))"

definition tick_pool :: "tick_input \<Rightarrow> visualizer \<Rightarrow> particle list" where
  "tick_pool inp st =
     (case refreshed inp st of
        Inl e \<Rightarrow> particles st
      | Inr st1 \<Rightarrow> spawned_pool (random inp) st1)"

subsection \<open>The constructor\<close>

text \<open>
  The visualizer as the constructor leaves it: a canvas of 1000 by 400, an empty pool, no
  cached visual data.  \<open>constructed mode scheme d\<close> is the case where \<open>setupAudioAPI\<close>
  succeeded, with the selected mode and color scheme and \<open>dataArray\<close> holding the frame
  \<open>d\<close>; \<open>constructed_without_audio\<close> is the case where \<open>setupAudioAPI\<close> caught an error and
  left \<open>analyser\<close>, \<open>bufferLength\<close> and \<open>dataArray\<close> undefined.
\<close>

definition constructed :: "string \<Rightarrow> string \<Rightarrow> uint8 list \<Rightarrow> visualizer" where
  "constructed mode scheme d =
     \<lparr>canvas_width = 1000, canvas_height = 400, visualMode = mode, colorScheme = scheme,
      particles = [], analyser = True, bufferLength = Some (of_nat (length d)),
      dataArray = Some d, currentVisualData = None\<rparr>"

definition constructed_without_audio :: "string \<Rightarrow> string \<Rightarrow> visualizer" where
  "constructed_without_audio mode scheme =
     \<lparr>canvas_width = 1000, canvas_height = 400, visualMode = mode, colorScheme = scheme,
      particles = [], analyser = False, bufferLength = None,
      dataArray = None, currentVisualData = None\<rparr>"

subsection \<open>Sample visualizers\<close>

text \<open>A frame of two samples of value 1.\<close>

definition two_ones :: visualizer where
  "two_ones = constructed ''bars'' ''rainbow'' [1, 1]"

text \<open>
  Two visualizers in waveform mode that hold the same raw frame of 1024 samples of 128 and
  the same color scheme, and differ only in the visual data cached by an earlier frame; and
  a visualizer that holds a silent frame and has cached nothing yet.
\<close>

definition quiet_cache :: visualizer where
  "quiet_cache =
     (constructed ''waveform'' ''fire'' (replicate 1024 128))
       \<lparr>currentVisualData := Some (replicate 128 0)\<rparr>"

definition loud_cache :: visualizer where
  "loud_cache =
     (constructed ''waveform'' ''fire'' (replicate 1024 128))
       \<lparr>currentVisualData := Some (replicate 128 255)\<rparr>"

definition silent_fresh :: visualizer where
  "silent_fresh = constructed ''waveform'' ''fire'' (replicate 1024 0)"

text \<open>
  A visualizer in waveform mode whose time-domain frame is 1024 samples of 128: 1024 is
  the frame length that \<open>setupAudioAPI\<close> sets up, \<open>frequencyBinCount\<close> for an \<open>fftSize\<close> of
  2048.
\<close>

definition centred_wave :: visualizer where
  "centred_wave = constructed ''waveform'' ''rainbow'' (replicate 1024 128)"

text \<open>
  The particle that the spawn loop creates on a canvas of 1000 by 400 when every random
  number is 0.5 and the sample is 255 under the scheme \<open>fire\<close>.
\<close>

definition spark :: particle where
  "spark = \<lparr>x = 500, y = 400, vx = 0, vy = - (11 / 2), size_px = 4,
            color = Hsl (Fin 60) 100 90, life = 1\<rparr>"

text \<open>
  A visualizer in particle mode whose frame is 1024 samples of 255, and a tick input that
  delivers the same frame again with every random number 0.5.  \<open>idle_bars\<close> is a visualizer
  in bars mode that still holds one particle.
\<close>

definition loud_input :: tick_input where
  "loud_input = \<lparr>timeDomain = replicate 1024 128, frequency = replicate 1024 255,
                  random = (\<lambda>k. 1 / 2)\<rparr>"

definition loud_particles :: visualizer where
  "loud_particles = constructed ''particles'' ''fire'' (replicate 1024 255)"

definition idle_bars :: visualizer where
  "idle_bars = (constructed ''bars'' ''rainbow'' [0, 0])\<lparr>particles := [spark]\<rparr>"

subsection \<open>Following one particle\<close>

text \<open>
  \<open>lasting n l\<close>: a life \<open>l\<close> is positive, stays positive through the next \<open>n - 1\<close> updates and
  is used up by update \<open>n\<close>.  \<open>stays_on h n a v\<close>: a particle at height \<open>a\<close> with vertical
  speed \<open>v\<close> is not below the edge \<open>h\<close>, now and after each of the next \<open>n\<close> updates.
\<close>

fun lasting :: "nat \<Rightarrow> real \<Rightarrow> bool" where
  "lasting 0 l = (l \<le> 0)"
| "lasting (Suc n) l = (0 < l \<and> lasting n (js_sub l (fl (1 / 100))))"

fun stays_on :: "real \<Rightarrow> nat \<Rightarrow> real \<Rightarrow> real \<Rightarrow> bool" where
  "stays_on h 0 a v = (a \<le> h)"
| "stays_on h (Suc n) a v = (a \<le> h \<and> stays_on h n (js_add a v) (js_add v (fl (1 / 10))))"

section \<open>Exact binary64 arithmetic\<close>

text \<open>
  A number \<open>n * 2 powi k\<close> with \<open>\<bar>n\<bar> < 2 ^ 53\<close> and \<open>k\<close> not below \<open>-1074\<close> is a binary64
  number, and rounding leaves it as it is.  The arithmetic of the reducer stays inside these
  numbers.
\<close>

lemma bitlen_numeral:
  "bitlen 1 = 1"
  "bitlen (numeral (Num.Bit0 n)) = bitlen (numeral n) + 1"
  "bitlen (numeral (Num.Bit1 n)) = bitlen (numeral n) + 1"
  "bitlen (numeral Num.One) = 1"
  by (subst compute_bitlen, simp)+

lemma round_even_of_int: "round_even (of_int z) = z"
  by (simp add: round_even_def)

lemma ilog2_lower:
  assumes "0 < a"
  shows "2 powi (ilog2 a) \<le> a"
proof (cases "1 \<le> a")
  case True
  then have n: "0 < \<lfloor>a\<rfloor>" by simp
  from bitlen_bounds [OF n] have "2 ^ nat (bitlen \<lfloor>a\<rfloor> - 1) \<le> \<lfloor>a\<rfloor>" by simp
  then have "real_of_int (2 ^ nat (bitlen \<lfloor>a\<rfloor> - 1)) \<le> a"
    using le_floor_iff by blast
  moreover have "0 \<le> bitlen \<lfloor>a\<rfloor> - 1"
    using n bitlen_eq_zero_iff [of "\<lfloor>a\<rfloor>"] bitlen_nonneg [of "\<lfloor>a\<rfloor>"] by linarith
  ultimately show ?thesis using True
    by (simp add: ilog2_def power_int_nonneg_exp)
next
  case False
  define m where "m = \<lceil>1 / a\<rceil> - 1"
  have "1 < 1 / a" using False assms by simp
  then have m: "0 < m" unfolding m_def by linarith
  from bitlen_bounds [OF m] have "m < 2 ^ nat (bitlen m)" by simp
  then have "\<lceil>1 / a\<rceil> \<le> 2 ^ nat (bitlen m)" unfolding m_def by linarith
  then have "1 / a \<le> real_of_int (2 ^ nat (bitlen m))"
    using ceiling_le_iff by blast
  then have "1 / a \<le> 2 ^ nat (bitlen m)" by simp
  then have "1 / 2 ^ nat (bitlen m) \<le> a"
    using assms by (simp add: field_simps)
  moreover have "2 powi (- bitlen m) = (1::real) / 2 ^ nat (bitlen m)"
    using bitlen_nonneg [of m] by (simp add: power_int_minus_divide power_int_nonneg_exp)
  ultimately show ?thesis using False
    by (simp add: ilog2_def m_def)
qed

lemma fl_dyadic:
  assumes n: "\<bar>n\<bar> < 2 ^ 53" and k: "- 1074 \<le> k"
  shows "fl (of_int n * 2 powi k) = of_int n * 2 powi k"
proof (cases "n = 0")
  case True
  then show ?thesis by (simp add: fl_def)
next
  case False
  define a :: real where "a = of_int n * 2 powi k"
  define e where "e = max (ilog2 \<bar>a\<bar>) (- 1022) - 52"
  have a0: "a \<noteq> 0" using False by (simp add: a_def)
  have absa: "\<bar>a\<bar> = of_int \<bar>n\<bar> * 2 powi k"
    by (simp add: a_def abs_mult)
  have "of_int \<bar>n\<bar> < (2::real) ^ 53" using n
    by (metis of_int_less_iff of_int_numeral of_int_power)
  then have "\<bar>a\<bar> < 2 ^ 53 * 2 powi k"
    unfolding absa by (simp add: mult_strict_right_mono)
  also have "\<dots> = 2 powi (53 + k)"
    by (simp add: power_int_add)
  finally have up: "\<bar>a\<bar> < 2 powi (53 + k)" .
  have "2 powi (ilog2 \<bar>a\<bar>) \<le> \<bar>a\<bar>"
    using a0 by (intro ilog2_lower) simp
  with up have "(2::real) powi (ilog2 \<bar>a\<bar>) < 2 powi (53 + k)" by linarith
  then have "ilog2 \<bar>a\<bar> < 53 + k"
    using power_int_increasing [of "53 + k" "ilog2 \<bar>a\<bar>" "2::real"] by force
  with k have ek: "e \<le> k" unfolding e_def by simp
  have "a / 2 powi e = of_int n * 2 powi (k - e)"
    by (simp add: a_def power_int_diff)
  also have "\<dots> = of_int (n * 2 ^ nat (k - e))"
    using ek by (simp add: power_int_nonneg_exp)
  finally have q: "a / 2 powi e = of_int (n * 2 ^ nat (k - e))" .
  have "fl a = of_int (round_even (a / 2 powi e)) * 2 powi e"
    using a0 by (simp add: fl_def e_def Let_def)
  also have "\<dots> = (a / 2 powi e) * 2 powi e"
    unfolding q round_even_of_int ..
  also have "\<dots> = a" by simp
  finally show ?thesis unfolding a_def .
qed

lemma fl_nat_over_pow2:
  assumes "n < 2 ^ 53" and "j \<le> 1074"
  shows "fl (real n / 2 ^ j) = real n / 2 ^ j"
proof -
  have eq: "real n / 2 ^ j = of_int (int n) * 2 powi (- int j)"
    by (simp add: power_int_minus divide_inverse)
  have "int n < 2 ^ 53" using assms(1)
    by (metis of_nat_less_iff of_nat_numeral of_nat_power)
  then have "\<bar>int n\<bar> < 2 ^ 53" by simp
  then show ?thesis unfolding eq using assms(2) by (intro fl_dyadic) simp_all
qed

lemma fl_nat: "n < 2 ^ 53 \<Longrightarrow> fl (real n) = real n"
  using fl_nat_over_pow2 [of n 0] by simp

lemma fl_zero: "fl 0 = 0"
  by (simp add: fl_def)

text \<open>Rounding a numeral is computed by rewriting with these equations.\<close>

lemmas fl_eval = fl_def ilog2_def round_even_def Let_def bitlen_numeral

lemma fl_1: "fl 1 = 1" by (simp add: fl_eval)
lemma fl_40: "fl 40 = 40" by (simp add: fl_eval)
lemma fl_60: "fl 60 = 60" by (simp add: fl_eval)
lemma fl_90: "fl 90 = 90" by (simp add: fl_eval)

lemma js_trunc_nonneg: "0 \<le> a \<Longrightarrow> js_trunc a = \<lfloor>a\<rfloor>"
  by (simp add: js_trunc_def)

lemma js_get_nat: "js_get xs (real k) = (if k < length xs then Some (xs ! k) else None)"
  by (simp add: js_get_def)

lemma binIndex_exact:
  assumes "i < 128" and "m < 2 ^ 32"
  shows "js_mul (js_div (real i) 128) (js_div (real m) 2) = real (i * m) / 256"
proof -
  have i: "js_div (real i) 128 = real i / 2 ^ 7"
    unfolding js_div_def using fl_nat_over_pow2 [of i 7] assms(1) by simp
  have m: "js_div (real m) 2 = real m / 2 ^ 1"
    unfolding js_div_def using fl_nat_over_pow2 [of m 1] assms(2) by simp
  have "i * m < 128 * 2 ^ 32" using assms
    by (meson mult_strict_mono' zero_le)
  then have "i * m < 2 ^ 53" by simp
  then have "fl (real (i * m) / 2 ^ 8) = real (i * m) / 2 ^ 8"
    by (intro fl_nat_over_pow2) simp_all
  then show ?thesis unfolding js_mul_def i m by simp
qed

lemma amplify_exact:
  assumes "v < 256"
  shows "js_mul (real v) (3 / 2) = real (3 * v) / 2"
proof -
  have e: "real v * (3 / 2) = real (3 * v) / 2 ^ 1" by simp
  have "fl (real (3 * v) / 2 ^ 1) = real (3 * v) / 2 ^ 1"
    using assms by (intro fl_nat_over_pow2) simp_all
  then have "js_mul (real v) (3 / 2) = real (3 * v) / 2 ^ 1"
    unfolding js_mul_def e .
  then show ?thesis by simp
qed

lemma amplified_exact:
  assumes "i < 128" and "unat m = length d" and "1 \<le> length d"
  shows "amplified (Some m) d i =
           Fin (min 255 (real (3 * unat (d ! (i * length d div 256))) / 2))"
proof -
  define k where "k = i * length d div 256"
  have m: "unat m < 2 ^ 32" using unsigned_less [of m] by simp
  have b: "js_mul (js_div (real i) 128) (js_div (real (unat m)) 2) = real (i * length d) / 256"
    using binIndex_exact [OF assms(1) m] unfolding assms(2) .
  have "i * length d < 256 * length d" using assms(1,3) by auto
  then have k: "k < length d"
    unfolding k_def by (simp add: less_mult_imp_div_less mult.commute)
  have f: "\<lfloor>real (i * length d) / 256\<rfloor> = int k"
    unfolding k_def by (metis floor_divide_of_nat_eq of_nat_numeral)
  have g: "js_get d (real_of_int (int k)) = Some (d ! k)"
    using k by (simp add: js_get_nat)
  have "unat (d ! k) < 256"
    using unsigned_less [of "d ! k"] by simp
  then have a: "js_mul (real (unat (d ! k))) (3 / 2) = real (3 * unat (d ! k)) / 2"
    by (rule amplify_exact)
  show ?thesis
    unfolding k_def [symmetric]
    by (simp only: amplified_def Let_def option.case b f g a)
qed

section \<open>The visual sample reducer\<close>

lemma fold_update_upt:
  "k \<le> n \<Longrightarrow>
   fold (\<lambda>i vd. vd[i := f i]) [0..<k] (replicate n z) = map f [0..<k] @ replicate (n - k) z"
proof (induction k)
  case 0
  then show ?case by simp
next
  case (Suc k)
  then have "fold (\<lambda>i vd. vd[i := f i]) [0..<Suc k] (replicate n z)
      = (map f [0..<k] @ replicate (n - k) z)[k := f k]" by simp
  also have "\<dots> = map f [0..<k] @ (replicate (n - k) z)[0 := f k]"
    by (simp add: list_update_append)
  also have "replicate (n - k) z = z # replicate (n - Suc k) z"
    using Suc.prems by (metis Suc_diff_Suc Suc_le_lessD replicate_Suc)
  finally show ?case by simp
qed

lemma fold_update_all:
  "fold (\<lambda>i vd. vd[i := f i]) [0..<n] (replicate n z) = map f [0..<n]"
  using fold_update_upt [of n n f z] by simp

lemma getVisualData_Some:
  assumes "dataArray st = Some d"
  shows "getVisualData st =
     (Inr (map (\<lambda>i. toUint8 (amplified (bufferLength st) d i)) [0..<128]),
      st\<lparr>currentVisualData := Some (map (\<lambda>i. toUint8 (amplified (bufferLength st) d i)) [0..<128])\<rparr>)"
  by (simp only: getVisualData_def assms option.simps Let_def fold_update_all)

lemma stored_amplified:
  assumes "v < 256"
  shows "unat (toUint8 (Fin (min 255 (real (3 * v) / 2)))) = min 255 (3 * v div 2)"
proof -
  define q :: real where "q = min 255 (real (3 * v) / 2)"
  have "\<lfloor>real (3 * v) / 2\<rfloor> = int (3 * v div 2)"
    by (metis floor_divide_of_nat_eq of_nat_numeral)
  then have fq: "\<lfloor>q\<rfloor> = min 255 (int (3 * v div 2))"
    unfolding q_def by (simp add: min_def floor_less_iff le_floor_iff) linarith
  have "0 \<le> q" unfolding q_def by simp
  then have "toUint8 (Fin q) = word_of_int (min 255 (int (3 * v div 2)))"
    by (simp add: toUint8_def js_trunc_nonneg fq)
  also have "min 255 (int (3 * v div 2)) = int (min 255 (3 * v div 2))" by simp
  finally have "unat (toUint8 (Fin q)) = unat (word_of_nat (min 255 (3 * v div 2)) :: uint8)"
    by simp
  also have "\<dots> = min 255 (3 * v div 2)"
    by (simp add: unat_of_nat min_def)
  finally show ?thesis unfolding q_def .
qed

lemma getVisualData_result:
  assumes "dataArray st = Some d"
  shows "projr (fst (getVisualData st))
           = map (\<lambda>i. toUint8 (amplified (bufferLength st) d i)) [0..<128]"
  by (simp only: getVisualData_Some [OF assms] fst_conv sum.sel)

lemma getVisualData_length:
  "dataArray st = Some d \<Longrightarrow> length (projr (fst (getVisualData st))) = 128"
  by (simp only: getVisualData_result length_map length_upt)

lemma getVisualData_nth:
  assumes "dataArray st = Some d" and "bufferLength st = Some m" and "unat m = length d"
    and "1 \<le> length d" and "i < 128"
  shows "unat (projr (fst (getVisualData st)) ! i)
           = min 255 (3 * unat (d ! (i * length d div 256)) div 2)"
proof -
  have v: "unat (d ! (i * length d div 256)) < 256"
    using unsigned_less [of "d ! (i * length d div 256)"] by simp
  have "projr (fst (getVisualData st)) ! i = toUint8 (amplified (Some m) d i)"
    unfolding getVisualData_result [OF assms(1)] assms(2) using assms(5)
    by (simp del: upt_rec_numeral)
  then have "unat (projr (fst (getVisualData st)) ! i) = unat (toUint8 (amplified (Some m) d i))"
    by (rule arg_cong)
  also have "\<dots> = min 255 (3 * unat (d ! (i * length d div 256)) div 2)"
    unfolding amplified_exact [OF assms(5,3,4)] by (rule stored_amplified [OF v])
  finally show ?thesis .
qed

lemma binIndex_floor: "nat \<lfloor>real i / 128 * (real n / 2)\<rfloor> = i * n div 256"
proof -
  have "real i / 128 * (real n / 2) = real (i * n) / real 256" by simp
  then have "\<lfloor>real i / 128 * (real n / 2)\<rfloor> = int (i * n div 256)"
    by (simp only: floor_divide_of_nat_eq)
  then show ?thesis by simp
qed

lemma floor_amplified: "nat \<lfloor>min 255 (real v * (3 / 2))\<rfloor> = min 255 (3 * v div 2)"
proof -
  have "real v * (3 / 2) = real (3 * v) / real 2" by simp
  then have "\<lfloor>real v * (3 / 2)\<rfloor> = int (3 * v div 2)"
    by (simp only: floor_divide_of_nat_eq)
  then have "\<lfloor>min 255 (real v * (3 / 2))\<rfloor> = min 255 (int (3 * v div 2))"
    by (simp add: min_def floor_less_iff le_floor_iff) linarith
  then show ?thesis by simp
qed

text \<open>
  Claim C1, as the code has it.  For a frame \<open>d\<close> of length \<open>M\<close>, at least 2, held by
  \<open>dataArray\<close> with \<open>bufferLength = M\<close>, \<open>getVisualData\<close> returns an array of exactly 128
  unsigned bytes and caches it; element \<open>i\<close> is the integer part of
  \<open>min(255, d[floor(i / 128 * M / 2)] * 1.5)\<close>.  The products and quotients are exact in
  binary64, so they are stated here in real arithmetic; the integer part is taken when the
  number is stored into the \<open>Uint8Array\<close>.
\<close>

theorem getVisualData_elements:
  assumes "dataArray st = Some d" and "bufferLength st = Some m" and "unat m = length d"
    and "2 \<le> length d"
  shows "\<exists>vd. getVisualData st = (Inr vd, st\<lparr>currentVisualData := Some vd\<rparr>) \<and>
           length vd = 128 \<and>
           (\<forall>i<128. unat (vd ! i)
              = nat \<lfloor>min 255 (real (unat (d ! nat \<lfloor>real i / 128 * (real (length d) / 2)\<rfloor>))
                                * (3 / 2))\<rfloor>)"
proof -
  let ?vd = "projr (fst (getVisualData st))"
  have "getVisualData st = (Inr ?vd, st\<lparr>currentVisualData := Some ?vd\<rparr>)"
    by (simp only: getVisualData_Some [OF assms(1)] fst_conv sum.sel)
  moreover have "length ?vd = 128"
    by (rule getVisualData_length [OF assms(1)])
  moreover have "\<forall>i<128. unat (?vd ! i)
      = nat \<lfloor>min 255 (real (unat (d ! nat \<lfloor>real i / 128 * (real (length d) / 2)\<rfloor>))
                        * (3 / 2))\<rfloor>"
    using assms(4) getVisualData_nth [OF assms(1,2,3)]
    by (simp only: binIndex_floor floor_amplified) simp
  ultimately show ?thesis by blast
qed

text \<open>The hypotheses hold for the frame \<open>[1, 1]\<close>.\<close>

theorem getVisualData_elements_witness:
  "\<exists>vd. getVisualData two_ones = (Inr vd, two_ones\<lparr>currentVisualData := Some vd\<rparr>) \<and>
         length vd = 128 \<and>
         (\<forall>i<128. unat (vd ! i)
            = nat \<lfloor>min 255 (real (unat ([1, 1 :: uint8] ! nat \<lfloor>real i / 128 * (real (length [1, 1 :: uint8]) / 2)\<rfloor>))
                              * (3 / 2))\<rfloor>)"
  using getVisualData_elements [of two_ones "[1, 1]" 2]
  by (simp add: two_ones_def constructed_def)

text \<open>
  Claim C1 as stated fails: for the frame \<open>[1, 1]\<close> element 0 of the result is 1, not
  \<open>min(255, 1 * 1.5) = 1.5\<close>.
\<close>

theorem getVisualData_not_exact:
  "real (unat (projr (fst (getVisualData two_ones)) ! 0))
     \<noteq> min 255 (real (unat ([1, 1 :: uint8] ! nat \<lfloor>real 0 / 128 * (real (length [1, 1 :: uint8]) / 2)\<rfloor>)) * (3 / 2))"
  using getVisualData_nth [of two_ones "[1, 1]" 2 0]
  by (simp add: two_ones_def constructed_def)

lemma amplified_undefined: "amplified bl [] i = NaN"
  by (cases bl) (simp_all add: amplified_def Let_def js_get_def)

text \<open>
  A zero-length frame.  When the raw sample frame is a zero-length array, \<open>getVisualData\<close>
  returns an all-zero array of length 128 and raises no error, whatever \<open>bufferLength\<close>
  holds: every read is \<open>undefined\<close>, the product is \<open>NaN\<close>, and \<open>NaN\<close> is stored as 0.
\<close>

theorem getVisualData_empty_frame:
  assumes "dataArray st = Some []"
  shows "getVisualData st
           = (Inr (replicate 128 0), st\<lparr>currentVisualData := Some (replicate 128 0)\<rparr>)"
proof -
  have "map (\<lambda>i. toUint8 (amplified (bufferLength st) [] i)) [0..<128] = replicate 128 0"
    unfolding amplified_undefined by (simp only: map_replicate_const length_upt toUint8_def jsnum.case) simp
  then show ?thesis
    by (simp only: getVisualData_Some [OF assms])
qed

text \<open>The hypothesis holds for the empty frame of a constructed visualizer.\<close>

theorem getVisualData_empty_frame_witness:
  "getVisualData (constructed ''bars'' ''rainbow'' [])
     = (Inr (replicate 128 0),
        (constructed ''bars'' ''rainbow'' [])\<lparr>currentVisualData := Some (replicate 128 0)\<rparr>)"
  using getVisualData_empty_frame [of "constructed ''bars'' ''rainbow'' []"]
  by (simp add: constructed_def)

text \<open>
  Claim C4.  The claim is that for a missing or zero-length raw sample frame
  \<open>getVisualData\<close> returns 128 zeros and raises no error.  The code does so for a
  zero-length frame, and not for a missing one.  When \<open>setupAudioAPI\<close> has caught an error,
  \<open>analyser\<close>, \<open>bufferLength\<close> and \<open>dataArray\<close> are \<open>undefined\<close>; the constructor goes on
  and calls \<open>animate\<close>, whose guard \<open>if (this.analyser)\<close> skips the refresh of the frame, and
  the strategy calls \<open>getVisualData\<close>, where \<open>this.dataArray[binIndex]\<close> raises a \<open>TypeError\<close>
  in the first pass of the loop.  The tick ends there and leaves the visualizer as it was,
  so the next frame raises again.
\<close>

theorem getVisualData_missing_frame:
  "fst (getVisualData (constructed_without_audio ''bars'' ''rainbow'')) = Inl TypeError \<and>
   animate inp (constructed_without_audio ''bars'' ''rainbow'')
     = (Some TypeError, constructed_without_audio ''bars'' ''rainbow'')"
  by (simp add: getVisualData_def animate_def refreshed_def drawBars_def
      constructed_without_audio_def)

section \<open>The color mapper\<close>

text \<open>
  Claim C8.  For a frequency-domain frame whose element 0 is 255 and whose other elements
  are 0, of any length, with the color scheme \<open>fire\<close>: after the reducer has run, the color
  for index 0 has hue 60 and lightness 90 (and saturation 100), whatever total is passed.
\<close>

theorem fire_color_of_peak:
  assumes "dataArray st = Some (255 # replicate n 0)" and "bufferLength st = Some m"
    and "unat m = Suc n" and "colorScheme st = ''fire''"
  shows "getColor (snd (getVisualData st)) 0 tot = Inr (Hsl (Fin 60) 100 90)"
proof -
  let ?d = "255 # replicate n 0 :: uint8 list"
  let ?vd = "projr (fst (getVisualData st))"
  have st': "snd (getVisualData st) = st\<lparr>currentVisualData := Some ?vd\<rparr>"
    by (simp only: getVisualData_Some [OF assms(1)] fst_conv snd_conv sum.sel)
  have "unat (?vd ! 0) = min 255 (3 * unat (?d ! (0 * length ?d div 256)) div 2)"
    using assms(3) by (intro getVisualData_nth [OF assms(1,2)]) simp_all
  then have v: "unat (?vd ! 0) = 255" by simp
  have len: "length ?vd = 128" by (rule getVisualData_length [OF assms(1)])
  have g: "js_get ?vd 0 = Some (?vd ! 0)"
    using len by (simp add: js_get_def)
  show ?thesis
    unfolding st'
    by (simp add: getColor_def dataSource_def Let_def g v assms(4) js_div_def js_mul_def
        js_add_def fl_1 fl_40 fl_60 fl_90)
qed

text \<open>The hypotheses hold for a frame of four samples.\<close>

theorem fire_color_of_peak_witness:
  "getColor (snd (getVisualData (constructed ''bars'' ''fire'' (255 # replicate 3 0)))) 0 128
     = Inr (Hsl (Fin 60) 100 90)"
  using fire_color_of_peak [of "constructed ''bars'' ''fire'' (255 # replicate 3 0)" 3 4 128]
  by (simp add: constructed_def)

text \<open>
  Claim C3, as the code has it.  \<open>getColor\<close> takes the index and the total; the scheme and
  the sample value are read from the visualizer.  The color is a function of the index,
  the total, the scheme and the value found at the index in the data source (the cached
  visual data once there is one, the raw frame before; 0 outside the array): two
  visualizers that agree on the scheme and on that value give the same color.
\<close>

theorem getColor_determined:
  assumes "colorScheme st1 = colorScheme st2"
    and "dataSource st1 = Some c1" and "dataSource st2 = Some c2"
    and "(case js_get c1 index of Some v \<Rightarrow> unat v | None \<Rightarrow> 0)
           = (case js_get c2 index of Some v \<Rightarrow> unat v | None \<Rightarrow> 0)"
  shows "getColor st1 index tot = getColor st2 index tot"
proof -
  have "(case js_get c1 index of Some v \<Rightarrow> real (unat v) | None \<Rightarrow> 0)
          = real (case js_get c1 index of Some v \<Rightarrow> unat v | None \<Rightarrow> 0)"
    by (simp split: option.split)
  moreover have "(case js_get c2 index of Some v \<Rightarrow> real (unat v) | None \<Rightarrow> 0)
          = real (case js_get c2 index of Some v \<Rightarrow> unat v | None \<Rightarrow> 0)"
    by (simp split: option.split)
  ultimately show ?thesis
    using assms by (simp add: getColor_def)
qed

text \<open>
  The hypotheses hold for a cache of 128 zeros and for a silent raw frame read without a
  cache: both give the value 0 at index 0.
\<close>

theorem getColor_determined_witness:
  "getColor quiet_cache 0 1024 = getColor silent_fresh 0 1024"
  using getColor_determined [of quiet_cache silent_fresh "replicate 128 0" "replicate 1024 0" 0 1024]
  by (simp add: quiet_cache_def silent_fresh_def constructed_def dataSource_def js_get_def)

text \<open>
  Claim C3 as stated fails: the cached sample data decides the color.  Two visualizers
  with the same scheme and the same raw frame, asked for the first gradient color of the
  waveform strategy (index 0 of 1024), give different colors when an earlier frame left
  different visual data in the cache.
\<close>

theorem getColor_depends_on_cache:
  "colorScheme quiet_cache = colorScheme loud_cache \<and>
   dataArray quiet_cache = dataArray loud_cache \<and>
   getColor quiet_cache 0 1024 \<noteq> getColor loud_cache 0 1024"
  by (simp add: quiet_cache_def loud_cache_def constructed_def getColor_def dataSource_def
      js_get_def Let_def js_div_def js_mul_def js_add_def fl_zero fl_1 fl_40 fl_60 fl_90)

text \<open>
  Claim C9.  For an index at or beyond the length of the data source, \<open>getColor\<close> raises no
  error and returns the color it returns when the data source holds the sample value 0 at
  that index, in range.
\<close>

theorem getColor_out_of_range:
  assumes "dataSource st = Some c" and "real (length c) \<le> index"
    and "dataSource st' = Some c'" and "js_get c' index = Some 0"
    and "colorScheme st' = colorScheme st"
  shows "\<exists>col. getColor st index tot = Inr col \<and> getColor st' index tot = Inr col"
proof -
  have "js_get c index = None"
    using assms(2) by (auto simp add: js_get_def)
  then show ?thesis
    using assms by (simp add: getColor_def Let_def)
qed

text \<open>
  The hypotheses hold for index 512 and a cache of 128 visual samples, as the gradient of
  the waveform strategy asks for it, against a silent raw frame of 1024 samples.
\<close>

theorem getColor_out_of_range_witness:
  "\<exists>col. getColor quiet_cache 512 1024 = Inr col \<and> getColor silent_fresh 512 1024 = Inr col"
  using getColor_out_of_range [of quiet_cache "replicate 128 0" 512 silent_fresh "replicate 1024 0" 1024]
  by (simp add: quiet_cache_def silent_fresh_def constructed_def dataSource_def js_get_def)

section \<open>The waveform strategy\<close>

lemma getColor_no_error:
  "dataSource st = Some c \<Longrightarrow> \<exists>col. getColor st index tot = Inr col"
  by (simp add: getColor_def Let_def)

lemma centre_exact:
  assumes "h < 2 ^ 32"
  shows "js_div (js_mul (js_div 128 128) (real h)) 2 = real h / 2"
proof -
  have "h < 2 ^ 53" using assms by simp
  then have "fl (real h) = real h" by (rule fl_nat)
  moreover have "fl (real h / 2 ^ 1) = real h / 2 ^ 1"
    using \<open>h < 2 ^ 53\<close> by (intro fl_nat_over_pow2) simp_all
  ultimately show ?thesis
    by (simp add: js_div_def js_mul_def fl_1)
qed

text \<open>
  With a frame in \<open>dataArray\<close>, \<open>drawWaveform\<close> raises no error and computes one point for
  every sample of the frame.
\<close>

lemma drawWaveform_points:
  assumes "dataArray st = Some d"
  shows "\<exists>w. drawWaveform st = Inr w \<and>
           main_path w
             = map (\<lambda>i. (js_mul (real i) (js_div (real (unat (canvas_width st))) (real (length d))),
                          js_div (js_mul (js_div (real (unat (d ! i))) 128)
                                    (real (unat (canvas_height st)))) 2))
                 [0..<length d]"
proof -
  obtain c where ds: "dataSource st = Some c"
    using assms by (cases "currentVisualData st") (simp_all add: dataSource_def)
  obtain c0 where c0: "getColor st 0 (real (length d)) = Inr c0"
    using getColor_no_error [OF ds] by blast
  obtain c1 where c1: "getColor st (js_div (real (length d)) 2) (real (length d)) = Inr c1"
    using getColor_no_error [OF ds] by blast
  obtain c2 where c2: "getColor st (js_sub (real (length d)) 1) (real (length d)) = Inr c2"
    using getColor_no_error [OF ds] by blast
  show ?thesis
    using assms c0 c1 c2 by (simp add: drawWaveform_def Let_def)
qed

text \<open>
  Claim C7, as the code has it.  For a time-domain frame of \<open>M\<close> samples that are all 128,
  \<open>drawWaveform\<close> computes \<open>M\<close> points, one for every index \<open>i\<close> below \<open>M\<close>, with
  \<open>y = height / 2\<close> and \<open>x = i * (width / M)\<close>, the product and the quotient being those of
  binary64.  \<open>M\<close> is the number of samples of the frame, \<open>dataArray.length\<close>, and not the
  length \<open>K = 128\<close> of the visual sample array: \<open>drawWaveform\<close> reads the raw frame and
  does not call \<open>getVisualData\<close>.
\<close>

theorem drawWaveform_centerline:
  assumes "dataArray st = Some (replicate n 128)"
  shows "\<exists>w. drawWaveform st = Inr w \<and>
           main_path w
             = map (\<lambda>i. (js_mul (real i) (js_div (real (unat (canvas_width st))) (real n)),
                          real (unat (canvas_height st)) / 2))
                 [0..<n]"
proof -
  obtain c where ds: "dataSource st = Some c"
    using assms by (cases "currentVisualData st") (simp_all add: dataSource_def)
  obtain c0 where c0: "getColor st 0 (real n) = Inr c0"
    using getColor_no_error [OF ds] by blast
  obtain c1 where c1: "getColor st (js_div (real n) 2) (real n) = Inr c1"
    using getColor_no_error [OF ds] by blast
  obtain c2 where c2: "getColor st (js_sub (real n) 1) (real n) = Inr c2"
    using getColor_no_error [OF ds] by blast
  have h: "unat (canvas_height st) < 2 ^ 32"
    using unsigned_less [of "canvas_height st"] by simp
  show ?thesis
    using assms c0 c1 c2 centre_exact [OF h]
    by (simp add: drawWaveform_def Let_def)
qed

text \<open>The hypothesis holds for a frame of four samples.\<close>

theorem drawWaveform_centerline_witness:
  "\<exists>w. drawWaveform (constructed ''waveform'' ''rainbow'' (replicate 4 128)) = Inr w \<and>
         main_path w
           = map (\<lambda>i. (js_mul (real i) (js_div (real (unat (1000 :: 32 word))) (real (4::nat))),
                        real (unat (400 :: 32 word)) / 2))
               [0..<4]"
  using drawWaveform_centerline [of "constructed ''waveform'' ''rainbow'' (replicate 4 128)" 4]
  by (simp add: constructed_def)

text \<open>
  Claim C7 as stated fails: with \<open>K = 128\<close> it gives 128 points, and on a canvas 1000 wide
  the point of index 1 at \<open>x = 1000 / 128 = 7.8125\<close>.  For the frame of 1024 samples of
  128 \<open>drawWaveform\<close> computes 1024 points, and the point of index 1 is at
  \<open>x = 1000 / 1024 = 0.9765625\<close>, on the centerline \<open>y = 200\<close>.
\<close>

theorem drawWaveform_frame_length:
  "\<exists>w. drawWaveform centred_wave = Inr w \<and>
         length (main_path w) = 1024 \<and>
         main_path w ! 1 = (125 / 128, 200) \<and>
         fst (main_path w ! 1) \<noteq> js_mul 1 (js_div 1000 128)"
proof -
  have d: "dataArray centred_wave = Some (replicate 1024 128)"
    and cw: "real (unat (canvas_width centred_wave)) = 1000"
    and ch: "real (unat (canvas_height centred_wave)) = 400"
    by (simp_all add: centred_wave_def constructed_def)
  from drawWaveform_points [OF d] obtain w where w: "drawWaveform centred_wave = Inr w"
    and p: "main_path w
              = map (\<lambda>i. (js_mul (real i) (js_div 1000 (real (length (replicate 1024 (128 :: uint8))))),
                           js_div (js_mul (js_div (real (unat (replicate 1024 (128 :: uint8) ! i))) 128)
                                     400) 2))
                  [0..<length (replicate 1024 (128 :: uint8))]"
    unfolding cw ch by blast
  have len: "length (main_path w) = 1024"
    unfolding p by (simp only: length_map length_upt length_replicate)
  have x: "js_mul 1 (js_div 1000 1024) = 125 / 128"
    by (simp add: js_mul_def js_div_def fl_eval)
  have y: "js_div (js_mul (js_div 128 128) 400) 2 = 200"
    using centre_exact [of 400] by simp
  have x': "js_mul 1 (js_div 1000 128) = 125 / 16"
    by (simp add: js_mul_def js_div_def fl_eval)
  have "main_path w ! 1 = (js_mul 1 (js_div 1000 1024), js_div (js_mul (js_div 128 128) 400) 2)"
    unfolding p by (simp only: length_replicate) (simp del: upt_rec_numeral)
  then have pt: "main_path w ! 1 = (125 / 128, 200)"
    unfolding x y .
  show ?thesis
    using w len pt x' by simp
qed

section \<open>The particle pool\<close>

lemma getVisualData_state:
  "\<exists>cv. snd (getVisualData st) = st\<lparr>currentVisualData := cv\<rparr>"
proof (cases "dataArray st")
  case None
  then have "snd (getVisualData st) = st\<lparr>currentVisualData := currentVisualData st\<rparr>"
    by (simp add: getVisualData_def)
  then show ?thesis by blast
next
  case (Some d)
  show ?thesis
    by (simp only: getVisualData_Some [OF Some] snd_conv) blast
qed

lemma getVisualData_particles [simp]:
  "particles (snd (getVisualData st)) = particles st"
  using getVisualData_state [of st] by auto

lemma getVisualData_visualMode [simp]:
  "visualMode (snd (getVisualData st)) = visualMode st"
  using getVisualData_state [of st] by auto

lemma drawBars_state: "snd (drawBars st) = snd (getVisualData st)"
  by (simp add: drawBars_def split: prod.split sum.split)

lemma drawCircular_state: "snd (drawCircular st) = snd (getVisualData st)"
  by (simp add: drawCircular_def split: prod.split sum.split)

lemma spawn_loop_state:
  "\<exists>new. snd (spawn_loop n vd r st) = st\<lparr>particles := particles st @ new\<rparr> \<and> length new \<le> n"
proof (induction n arbitrary: r st)
  case 0
  have "snd (spawn_loop 0 vd r st) = st\<lparr>particles := particles st @ []\<rparr>" by simp
  then show ?case by (metis le0 list.size(3))
next
  case (Suc n)
  let ?len = "real (length vd)"
  show ?case
  proof (cases "case js_get vd (of_int \<lfloor>js_mul (r 0) ?len\<rfloor>) of None \<Rightarrow> False | Some v \<Rightarrow> 80 < unat v")
    case False
    then have "spawn_loop (Suc n) vd r st = spawn_loop n vd (\<lambda>k. r (k + 1)) st"
      by (simp add: Let_def)
    moreover obtain new where "snd (spawn_loop n vd (\<lambda>k. r (k + 1)) st) = st\<lparr>particles := particles st @ new\<rparr>"
      and "length new \<le> n"
      using Suc.IH by blast
    ultimately show ?thesis by (metis le_SucI)
  next
    case True
    show ?thesis
    proof (cases "getColor st (of_int \<lfloor>js_mul (r 5) ?len\<rfloor>) ?len")
      case (Inl e)
      then have "snd (spawn_loop (Suc n) vd r st) = st\<lparr>particles := particles st @ []\<rparr>"
        using True by (simp add: Let_def)
      then show ?thesis by (metis le0 list.size(3))
    next
      case (Inr c)
      define p where "p = \<lparr>x = js_mul (r 1) (real (unat (canvas_width st))),
                       y = real (unat (canvas_height st)),
                       vx = js_mul (js_sub (r 2) (1 / 2)) 4,
                       vy = - js_add (js_mul (r 3) 5) 3,
                       size_px = js_add (js_mul (r 4) 4) 2,
                       color = c,
                       life = 1\<rparr>"
      have eq: "spawn_loop (Suc n) vd r st
          = spawn_loop n vd (\<lambda>k. r (k + 6)) (st\<lparr>particles := particles st @ [p]\<rparr>)"
        using True Inr by (simp add: Let_def p_def)
      obtain new where "snd (spawn_loop n vd (\<lambda>k. r (k + 6)) (st\<lparr>particles := particles st @ [p]\<rparr>))
          = (st\<lparr>particles := particles st @ [p]\<rparr>)\<lparr>particles := particles (st\<lparr>particles := particles st @ [p]\<rparr>) @ new\<rparr>"
        and n: "length new \<le> n"
        using Suc.IH by blast
      then have "snd (spawn_loop (Suc n) vd r st) = st\<lparr>particles := particles st @ (p # new)\<rparr>"
        using eq by simp
      moreover have "length (p # new) \<le> Suc n" using n by simp
      ultimately show ?thesis by blast
    qed
  qed
qed

text \<open>
  The update loop, with its index running down and its splices, keeps exactly the updated
  particles that are not dead, in their order.
\<close>

lemma particle_loop_prefix:
  "n \<le> length ps \<Longrightarrow>
   particle_loop h n ps
     = filter (\<lambda>p. \<not> dead h p) (map update_particle (take n ps)) @ drop n ps"
proof (induction n arbitrary: ps)
  case 0
  then show ?case by simp
next
  case (Suc i)
  then have i: "i < length ps" by simp
  have tk: "take (Suc i) ps = take i ps @ [ps ! i]"
    using i by (simp add: take_Suc_conv_app_nth)
  show ?case
  proof (cases "dead h (update_particle (ps ! i))")
    case True
    have "particle_loop h (Suc i) ps = particle_loop h i (take i ps @ drop (Suc i) ps)"
      using True by (simp add: Let_def)
    also have "\<dots> = filter (\<lambda>p. \<not> dead h p) (map update_particle (take i ps)) @ drop (Suc i) ps"
      using i by (subst Suc.IH) (simp_all add: min_def)
    finally show ?thesis using True by (simp add: tk)
  next
    case False
    have "particle_loop h (Suc i) ps = particle_loop h i (ps[i := update_particle (ps ! i)])"
      using False by (simp add: Let_def)
    also have "\<dots> = filter (\<lambda>p. \<not> dead h p) (map update_particle (take i ps))
                      @ update_particle (ps ! i) # drop (Suc i) ps"
      using i by (subst Suc.IH) (simp_all add: drop_update_cancel Cons_nth_drop_Suc [symmetric]
          upd_conv_take_nth_drop)
    finally show ?thesis using False by (simp add: tk)
  qed
qed

lemma update_and_cull_filter:
  "update_and_cull h ps = filter (\<lambda>p. \<not> dead h p) (map update_particle ps)"
  using particle_loop_prefix [of "length ps" ps h] by (simp add: update_and_cull_def)

lemma drawParticles_cases:
  "\<exists>cv new. length new \<le> 3 \<and> (length (particles st) < 100 \<or> new = []) \<and>
     (snd (drawParticles r st) = st\<lparr>currentVisualData := cv, particles := particles st @ new\<rparr> \<or>
      snd (drawParticles r st)
        = st\<lparr>currentVisualData := cv,
             particles := filter (\<lambda>p. \<not> dead (real (unat (canvas_height st))) p)
                            (map update_particle (particles st @ new))\<rparr>)"
proof -
  obtain res st1 where gv: "getVisualData st = (res, st1)" by (cases "getVisualData st")
  obtain cv where st1: "st1 = st\<lparr>currentVisualData := cv\<rparr>"
    using getVisualData_state [of st] gv by auto
  show ?thesis
  proof (cases res)
    case (Inl e)
    then have "snd (drawParticles r st) = st\<lparr>currentVisualData := cv, particles := particles st @ []\<rparr>"
      using gv st1 by (simp add: drawParticles_def)
    then show ?thesis by (metis le0 list.size(3))
  next
    case (Inr vd)
    define out where "out = (if length (particles st1) < 100 then spawn_loop 3 vd r st1 else (None, st1))"
    obtain err st2 where out: "out = (err, st2)" by (cases out)
    have "\<exists>new. st2 = st1\<lparr>particles := particles st1 @ new\<rparr> \<and> length new \<le> 3 \<and>
             (length (particles st) < 100 \<or> new = [])"
    proof (cases "length (particles st1) < 100")
      case True
      then have "st2 = snd (spawn_loop 3 vd r st1)" using out by (simp add: out_def)
      then show ?thesis using spawn_loop_state [of 3 vd r st1] True st1 by auto
    next
      case False
      then have "st2 = st1\<lparr>particles := particles st1 @ []\<rparr>" using out by (simp add: out_def)
      then show ?thesis by (metis le0 list.size(3))
    qed
    then obtain new where st2: "st2 = st\<lparr>currentVisualData := cv, particles := particles st @ new\<rparr>"
      and new: "length new \<le> 3" "length (particles st) < 100 \<or> new = []"
      using st1 by auto
    have dp: "drawParticles r st
        = (case out of (Some e, st2) \<Rightarrow> (Some e, st2)
           | (None, st2) \<Rightarrow>
               (None, st2\<lparr>particles :=
                  update_and_cull (real (unat (canvas_height st2))) (particles st2)\<rparr>))"
      using gv Inr by (simp add: drawParticles_def out_def)
    show ?thesis
    proof (cases err)
      case (Some e)
      then have "snd (drawParticles r st) = st2" using dp out by simp
      then show ?thesis using st2 new by blast
    next
      case None
      then have "snd (drawParticles r st)
          = st2\<lparr>particles := filter (\<lambda>p. \<not> dead (real (unat (canvas_height st2))) p)
                                (map update_particle (particles st2))\<rparr>"
        using dp out by (simp add: update_and_cull_filter)
      then have "snd (drawParticles r st)
          = st\<lparr>currentVisualData := cv,
               particles := filter (\<lambda>p. \<not> dead (real (unat (canvas_height st))) p)
                              (map update_particle (particles st @ new))\<rparr>"
        using st2 by simp
      then show ?thesis using new by blast
    qed
  qed
qed

lemma drawParticles_visualMode [simp]:
  "visualMode (snd (drawParticles r st)) = visualMode st"
  using drawParticles_cases [of st r] by auto

lemma drawParticles_length:
  assumes "length (particles st) \<le> 102"
  shows "length (particles (snd (drawParticles r st))) \<le> 102"
proof -
  obtain cv new where new: "length new \<le> 3" "length (particles st) < 100 \<or> new = []"
    and alt: "snd (drawParticles r st) = st\<lparr>currentVisualData := cv, particles := particles st @ new\<rparr> \<or>
      snd (drawParticles r st)
        = st\<lparr>currentVisualData := cv,
             particles := filter (\<lambda>p. \<not> dead (real (unat (canvas_height st))) p)
                            (map update_particle (particles st @ new))\<rparr>"
    using drawParticles_cases [of st r] by blast
  have len: "length (particles st @ new) \<le> 102" using new assms by auto
  from alt show ?thesis
  proof
    assume "snd (drawParticles r st) = st\<lparr>currentVisualData := cv, particles := particles st @ new\<rparr>"
    then show ?thesis using len by simp
  next
    assume a: "snd (drawParticles r st)
        = st\<lparr>currentVisualData := cv,
             particles := filter (\<lambda>p. \<not> dead (real (unat (canvas_height st))) p)
                            (map update_particle (particles st @ new))\<rparr>"
    have "length (filter (\<lambda>p. \<not> dead (real (unat (canvas_height st))) p)
                   (map update_particle (particles st @ new))) \<le> length (particles st @ new)"
      by (metis length_filter_le length_map)
    then show ?thesis using a len by simp
  qed
qed

lemma refreshed_Inr:
  "refreshed inp st = Inr st1 \<Longrightarrow> visualMode st1 = visualMode st \<and> particles st1 = particles st"
  by (auto simp add: refreshed_def split: if_splits option.splits)

lemma animate_refreshed:
  "animate inp st =
     (case refreshed inp st of
        Inl e \<Rightarrow> (Some e, st)
      | Inr st1 \<Rightarrow>
          if visualMode st1 = ''bars'' then drawBars st1
          else if visualMode st1 = ''circular'' then drawCircular st1
          else if visualMode st1 = ''waveform'' then
            (case drawWaveform st1 of Inl e \<Rightarrow> (Some e, st1) | Inr w \<Rightarrow> (None, st1))
          else if visualMode st1 = ''particles'' then drawParticles (random inp) st1
          else (None, st1))"
  by (simp only: animate_def Let_def)

lemma animate_visualMode [simp]:
  "visualMode (snd (animate inp st)) = visualMode st"
proof (cases "refreshed inp st")
  case (Inl e)
  then show ?thesis by (simp add: animate_refreshed)
next
  case (Inr st1)
  then have "visualMode (snd (animate inp st)) = visualMode st1"
    by (simp add: animate_refreshed drawBars_state drawCircular_state split: sum.split)
  then show ?thesis using refreshed_Inr [OF Inr] by simp
qed

lemma animate_other_modes:
  assumes "visualMode st \<noteq> ''particles''"
  shows "particles (snd (animate inp st)) = particles st"
proof (cases "refreshed inp st")
  case (Inl e)
  then show ?thesis by (simp add: animate_refreshed)
next
  case (Inr st1)
  then have "visualMode st1 \<noteq> ''particles''"
    using refreshed_Inr [OF Inr] assms by simp
  then have "particles (snd (animate inp st)) = particles st1"
    using Inr
    by (simp add: animate_refreshed drawBars_state drawCircular_state split: sum.split)
  then show ?thesis using refreshed_Inr [OF Inr] by simp
qed

lemma animate_length:
  assumes "length (particles st) \<le> 102"
  shows "length (particles (snd (animate inp st))) \<le> 102"
proof (cases "refreshed inp st")
  case (Inl e)
  then show ?thesis using assms by (simp add: animate_refreshed)
next
  case (Inr st1)
  then have st1: "length (particles st1) \<le> 102"
    using refreshed_Inr [OF Inr] assms by simp
  show ?thesis
  proof (cases "visualMode st = ''particles''")
    case False
    then show ?thesis using assms by (simp add: animate_other_modes)
  next
    case True
    then have "visualMode st1 = ''particles''" using refreshed_Inr [OF Inr] by simp
    then have "snd (animate inp st) = snd (drawParticles (random inp) st1)"
      using Inr by (simp add: animate_refreshed)
    then show ?thesis using drawParticles_length [OF st1] by simp
  qed
qed

text \<open>
  Claim C10.  A tick in any mode other than the particle field (bars, circular, waveform,
  or a mode the switch does not know) leaves the pool as it was, whether or not the tick
  raises an error.
\<close>

theorem other_modes_keep_pool:
  assumes "visualMode st \<noteq> ''particles''"
  shows "particles (snd (animate inp st)) = particles st"
  using assms by (rule animate_other_modes)

text \<open>A tick in bars mode on a visualizer that holds a particle.\<close>

theorem other_modes_keep_pool_witness:
  "particles (snd (animate loud_input idle_bars)) = particles idle_bars"
  using other_modes_keep_pool [of idle_bars loud_input]
  by (simp add: idle_bars_def constructed_def)

lemma run_keeps_empty_pool:
  "particles st = [] \<Longrightarrow> no_particle_tick es (visualMode st) \<Longrightarrow> particles (run es st) = []"
proof (induction es arbitrary: st)
  case Nil
  then show ?case by simp
next
  case (Cons e es)
  show ?case
  proof (cases e)
    case (Frame inp)
    with Cons.prems have "particles (snd (animate inp st)) = []"
      by (simp add: animate_other_modes)
    moreover have "no_particle_tick es (visualMode (snd (animate inp st)))"
      using Cons.prems Frame by simp
    ultimately show ?thesis using Frame Cons.IH by simp
  next
    case (Select m)
    then show ?thesis
      using Cons.prems Cons.IH [of "visualMode_change m st"]
      by (simp add: visualMode_change_def)
  qed
qed

text \<open>
  Claim C6.  After a change of the mode selector, in any run that follows, the pool is
  empty for as long as no frame has been drawn by the particle-field strategy: at the start
  of the next particle-field tick its size is 0, and no particle from before the switch is
  in it.
\<close>

theorem mode_change_empties_pool:
  assumes "no_particle_tick es m"
  shows "particles (run es (visualMode_change m st)) = []"
  using assms by (intro run_keeps_empty_pool) (simp_all add: visualMode_change_def)

text \<open>A switch to circular, a frame, a switch to waveform and another frame.\<close>

theorem mode_change_empties_pool_witness:
  "particles (run [Frame loud_input, Select ''waveform'', Frame loud_input]
                (visualMode_change ''circular'' idle_bars)) = []"
  using mode_change_empties_pool
    [of "[Frame loud_input, Select ''waveform'', Frame loud_input]" "''circular''" idle_bars]
  by simp

lemma run_length:
  "length (particles st) \<le> 102 \<Longrightarrow> length (particles (run es st)) \<le> 102"
proof (induction es arbitrary: st)
  case Nil
  then show ?case by simp
next
  case (Cons e es)
  then show ?case
    by (cases e) (simp_all add: animate_length visualMode_change_def)
qed

text \<open>
  Claim C2, as the code has it.  Starting from an empty pool, after any run of frames and
  mode changes the pool holds at most 102 particles: the guard \<open>particles.length < 100\<close>
  is tested once per tick, before the three passes of the spawn loop.
\<close>

theorem pool_bound:
  assumes "particles st = []"
  shows "length (particles (run es st)) \<le> 102"
  using assms by (intro run_length) simp

text \<open>Two particle-field ticks from the empty pool.\<close>

theorem pool_bound_witness:
  "length (particles (run [Frame loud_input, Frame loud_input] loud_particles)) \<le> 102"
  using pool_bound [of loud_particles "[Frame loud_input, Frame loud_input]"]
  by (simp add: loud_particles_def constructed_def)

section \<open>The life of a particle\<close>

text \<open>
  The literals \<open>0.01\<close> and \<open>0.1\<close> as binary64 numbers, and the two checks computed for a
  life of 1 and for the spark on a canvas of height 400.
\<close>

lemma fl_hundredth: "fl (1 / 100) = 5764607523034235 / 576460752303423488"
  by (simp add: fl_eval)

lemma fl_tenth: "fl (1 / 10) = 3602879701896397 / 36028797018963968"
  by (simp add: fl_eval)

lemma lasting_numeral:
  "lasting (numeral k) l
     = (if 0 < l then lasting (pred_numeral k) (fl (l - 5764607523034235 / 576460752303423488))
        else False)"
  by (simp add: numeral_eq_Suc js_sub_def fl_hundredth)

lemma stays_on_numeral:
  "stays_on h (numeral k) a v
     = (if a \<le> h
        then stays_on h (pred_numeral k) (fl (a + v)) (fl (v + 3602879701896397 / 36028797018963968))
        else False)"
  by (simp add: numeral_eq_Suc js_add_def fl_tenth)

lemma life_lasts_100: "lasting 100 1"
  by (simp add: lasting_numeral js_sub_def fl_hundredth fl_eval)

lemma spark_stays_on: "stays_on 400 100 400 (- (11 / 2))"
  by (simp add: stays_on_numeral js_add_def fl_tenth fl_eval)

lemma lasting_funpow:
  "lasting n l \<Longrightarrow>
   (\<forall>k<n. 0 < ((\<lambda>a. js_sub a (fl (1 / 100))) ^^ k) l) \<and>
   ((\<lambda>a. js_sub a (fl (1 / 100))) ^^ n) l \<le> 0"
proof (induction n arbitrary: l)
  case 0
  then show ?case by simp
next
  case (Suc n)
  then have pos: "0 < l" and rest: "lasting n (js_sub l (fl (1 / 100)))" by simp_all
  from Suc.IH [OF rest] have ih:
    "\<forall>k<n. 0 < ((\<lambda>a. js_sub a (fl (1 / 100))) ^^ Suc k) l"
    "((\<lambda>a. js_sub a (fl (1 / 100))) ^^ Suc n) l \<le> 0"
    unfolding funpow_Suc_right o_apply by simp_all
  have "0 < ((\<lambda>a. js_sub a (fl (1 / 100))) ^^ k) l" if "k < Suc n" for k
  proof (cases k)
    case 0
    then show ?thesis using pos by simp
  next
    case (Suc j)
    then show ?thesis using ih(1) that by blast
  qed
  then show ?case using ih(2) by blast
qed

lemma life_funpow:
  "life ((update_particle ^^ k) p) = ((\<lambda>a. js_sub a (fl (1 / 100))) ^^ k) (life p)"
  by (induction k) (simp_all add: update_particle_def)

lemma stays_on_funpow:
  "stays_on h n (y p) (vy p) \<Longrightarrow> \<forall>k\<le>n. y ((update_particle ^^ k) p) \<le> h"
proof (induction n arbitrary: p)
  case 0
  then show ?case by simp
next
  case (Suc n)
  then have now: "y p \<le> h"
    and rest: "stays_on h n (y (update_particle p)) (vy (update_particle p))"
    by (simp_all add: update_particle_def)
  have "y ((update_particle ^^ k) p) \<le> h" if "k \<le> Suc n" for k
  proof (cases k)
    case 0
    then show ?thesis using now by simp
  next
    case (Suc j)
    then show ?thesis
      using Suc.IH [OF rest, rule_format, of j] that
      by (simp add: funpow_swap1)
  qed
  then show ?case by blast
qed

lemma update_and_cull_append:
  "update_and_cull h (ps @ qs) = update_and_cull h ps @ update_and_cull h qs"
  by (simp add: update_and_cull_filter)

lemma update_and_cull_single:
  "update_and_cull h [q] = (if dead h (update_particle q) then [] else [update_particle q])"
  by (simp add: update_and_cull_filter)

lemma update_and_cull_funpow_Nil: "(update_and_cull h ^^ k) [] = []"
  by (induction k) (simp_all add: update_and_cull_filter)

lemma update_and_cull_around:
  "update_and_cull h (A @ q # B)
     = update_and_cull h A @ update_and_cull h [q] @ update_and_cull h B"
  using update_and_cull_append [of h A "[q] @ B"] update_and_cull_append [of h "[q]" B]
  by simp

subsection \<open>The particle-field tick\<close>

text \<open>
  With a frame in \<open>dataArray\<close> the spawn loop raises no error: \<open>getColor\<close> finds the visual
  data that \<open>getVisualData\<close> has just stored.  It appends at most one particle per pass,
  each with a life of 1, and changes nothing else.
\<close>

lemma spawn_loop_no_error:
  "dataSource st = Some c \<Longrightarrow> fst (spawn_loop n vd r st) = None"
proof (induction n arbitrary: r st)
  case 0
  then show ?case by simp
next
  case (Suc n)
  let ?len = "real (length vd)"
  obtain col where col: "getColor st (of_int \<lfloor>js_mul (r 5) ?len\<rfloor>) ?len = Inr col"
    using getColor_no_error [OF Suc.prems] by blast
  have ds: "dataSource (st\<lparr>particles := ps\<rparr>) = Some c" for ps
    using Suc.prems by (simp add: dataSource_def split: option.splits)
  show ?case
    using Suc.IH [OF Suc.prems] Suc.IH [OF ds] col
    by (simp add: Let_def)
qed

lemma spawn_loop_births:
  "\<exists>new. snd (spawn_loop n vd r st) = st\<lparr>particles := particles st @ new\<rparr> \<and>
         length new \<le> n \<and> (\<forall>q\<in>set new. life q = 1)"
proof (induction n arbitrary: r st)
  case 0
  have "snd (spawn_loop 0 vd r st) = st\<lparr>particles := particles st @ []\<rparr>" by simp
  then show ?case by (metis empty_iff le0 list.size(3) empty_set)
next
  case (Suc n)
  let ?len = "real (length vd)"
  show ?case
  proof (cases "case js_get vd (of_int \<lfloor>js_mul (r 0) ?len\<rfloor>) of None \<Rightarrow> False | Some v \<Rightarrow> 80 < unat v")
    case False
    then have "spawn_loop (Suc n) vd r st = spawn_loop n vd (\<lambda>k. r (k + 1)) st"
      by (simp add: Let_def)
    moreover obtain new where "snd (spawn_loop n vd (\<lambda>k. r (k + 1)) st) = st\<lparr>particles := particles st @ new\<rparr>"
      and "length new \<le> n" and "\<forall>q\<in>set new. life q = 1"
      using Suc.IH by blast
    ultimately show ?thesis by (metis le_SucI)
  next
    case True
    show ?thesis
    proof (cases "getColor st (of_int \<lfloor>js_mul (r 5) ?len\<rfloor>) ?len")
      case (Inl e)
      then have "snd (spawn_loop (Suc n) vd r st) = st\<lparr>particles := particles st @ []\<rparr>"
        using True by (simp add: Let_def)
      then show ?thesis by (metis empty_iff le0 list.size(3) empty_set)
    next
      case (Inr c)
      define p where "p = \<lparr>x = js_mul (r 1) (real (unat (canvas_width st))),
                       y = real (unat (canvas_height st)),
                       vx = js_mul (js_sub (r 2) (1 / 2)) 4,
                       vy = - js_add (js_mul (r 3) 5) 3,
                       size_px = js_add (js_mul (r 4) 4) 2,
                       color = c,
                       life = 1\<rparr>"
      have eq: "spawn_loop (Suc n) vd r st
          = spawn_loop n vd (\<lambda>k. r (k + 6)) (st\<lparr>particles := particles st @ [p]\<rparr>)"
        using True Inr by (simp add: Let_def p_def)
      obtain new where "snd (spawn_loop n vd (\<lambda>k. r (k + 6)) (st\<lparr>particles := particles st @ [p]\<rparr>))
          = (st\<lparr>particles := particles st @ [p]\<rparr>)\<lparr>particles := particles (st\<lparr>particles := particles st @ [p]\<rparr>) @ new\<rparr>"
        and n: "length new \<le> n" and l: "\<forall>q\<in>set new. life q = 1"
        using Suc.IH by blast
      then have "snd (spawn_loop (Suc n) vd r st) = st\<lparr>particles := particles st @ (p # new)\<rparr>"
        using eq by simp
      moreover have "length (p # new) \<le> Suc n" using n by simp
      moreover have "\<forall>q\<in>set (p # new). life q = 1" using l by (simp add: p_def)
      ultimately show ?thesis by blast
    qed
  qed
qed

lemma spawned_pool_births:
  "\<exists>new. spawned_pool r st = particles st @ new \<and> length new \<le> 3 \<and>
         (\<forall>q\<in>set new. life q = 1)"
proof -
  obtain res st1 where gv: "getVisualData st = (res, st1)" by (cases "getVisualData st")
  have p1: "particles st1 = particles st"
    using getVisualData_particles [of st] gv by simp
  have nil: "spawned_pool r st = particles st @ [] \<Longrightarrow> ?thesis"
    by (metis empty_iff le0 list.size(3) empty_set)
  show ?thesis
  proof (cases res)
    case (Inl e)
    then show ?thesis using gv p1 nil by (simp add: spawned_pool_def)
  next
    case (Inr vd)
    show ?thesis
    proof (cases "length (particles st1) < 100")
      case True
      then have "spawned_pool r st = particles (snd (spawn_loop 3 vd r st1))"
        using gv Inr by (simp add: spawned_pool_def)
      then show ?thesis using spawn_loop_births [of 3 vd r st1] p1 by auto
    next
      case False
      then show ?thesis using gv Inr p1 nil by (simp add: spawned_pool_def)
    qed
  qed
qed

lemma tick_pool_births:
  "\<exists>new. tick_pool inp st = particles st @ new \<and> length new \<le> 3 \<and> (\<forall>q\<in>set new. life q = 1)"
proof (cases "refreshed inp st")
  case (Inl e)
  then have "tick_pool inp st = particles st @ []" by (simp add: tick_pool_def)
  then show ?thesis by (metis empty_iff le0 list.size(3) empty_set)
next
  case (Inr st1)
  then show ?thesis
    using spawned_pool_births [of "random inp" st1] refreshed_Inr [OF Inr]
    by (simp add: tick_pool_def)
qed

text \<open>
  A particle-field tick on a visualizer that has a frame raises no error and leaves, as the
  pool, the result of the update loop on the pool that the spawn loop has left.
\<close>

lemma drawParticles_tick:
  assumes "dataArray st = Some d"
  shows "\<exists>cv. drawParticles r st
           = (None, st\<lparr>currentVisualData := cv,
                particles := update_and_cull (real (unat (canvas_height st))) (spawned_pool r st)\<rparr>)"
proof -
  let ?vd = "map (\<lambda>i. toUint8 (amplified (bufferLength st) d i)) [0..<128]"
  let ?st1 = "st\<lparr>currentVisualData := Some ?vd\<rparr>"
  have gv: "getVisualData st = (Inr ?vd, ?st1)"
    by (rule getVisualData_Some [OF assms])
  define out where "out = (if length (particles ?st1) < 100 then spawn_loop 3 ?vd r ?st1
                           else (None, ?st1))"
  have ds: "dataSource ?st1 = Some ?vd" by (simp add: dataSource_def)
  have ok: "fst out = None"
    unfolding out_def using spawn_loop_no_error [OF ds] by simp
  have "\<exists>new. snd out = ?st1\<lparr>particles := particles ?st1 @ new\<rparr>"
  proof (cases "length (particles ?st1) < 100")
    case True
    then show ?thesis
      unfolding out_def using spawn_loop_births [of 3 ?vd r ?st1] by auto
  next
    case False
    then have "snd out = ?st1\<lparr>particles := particles ?st1 @ []\<rparr>"
      unfolding out_def by simp
    then show ?thesis by blast
  qed
  then obtain new where new: "snd out = ?st1\<lparr>particles := particles ?st1 @ new\<rparr>"
    by blast
  have sp: "spawned_pool r st = particles (snd out)"
    unfolding spawned_pool_def gv out_def by simp
  obtain st2 where o: "out = (None, st2)" using ok by (cases out) auto
  have "drawParticles r st
          = (case out of
               (Some e, st2) \<Rightarrow> (Some e, st2)
             | (None, st2) \<Rightarrow>
                 (None, st2\<lparr>particles :=
                    update_and_cull (real (unat (canvas_height st2))) (particles st2)\<rparr>))"
    by (simp only: drawParticles_def gv prod.case sum.case out_def)
  then have "drawParticles r st
          = (None, (snd out)\<lparr>particles :=
               update_and_cull (real (unat (canvas_height (snd out)))) (particles (snd out))\<rparr>)"
    unfolding o by simp
  then have "drawParticles r st
          = (None, st\<lparr>currentVisualData := Some ?vd,
               particles := update_and_cull (real (unat (canvas_height st))) (spawned_pool r st)\<rparr>)"
    unfolding sp using new by simp
  then show ?thesis by blast
qed

lemma particle_tick:
  assumes "visualMode st = ''particles''" and "dataArray st = Some d"
  shows "\<exists>d' cv. animate inp st
           = (None, st\<lparr>dataArray := Some d', currentVisualData := cv,
                particles := update_and_cull (real (unat (canvas_height st))) (tick_pool inp st)\<rparr>)"
proof -
  have "\<exists>d'. refreshed inp st = Inr (st\<lparr>dataArray := Some d'\<rparr>)"
  proof (cases "analyser st")
    case True
    then show ?thesis using assms(2) by (auto simp add: refreshed_def)
  next
    case False
    have "st\<lparr>dataArray := Some d\<rparr> = st" using assms(2) by simp
    then have "refreshed inp st = Inr (st\<lparr>dataArray := Some d\<rparr>)"
      using False by (simp add: refreshed_def)
    then show ?thesis by blast
  qed
  then obtain d' where r: "refreshed inp st = Inr (st\<lparr>dataArray := Some d'\<rparr>)"
    by blast
  let ?st1 = "st\<lparr>dataArray := Some d'\<rparr>"
  have "dataArray ?st1 = Some d'" by simp
  from drawParticles_tick [OF this, of "random inp"]
  obtain cv where "drawParticles (random inp) ?st1
      = (None, ?st1\<lparr>currentVisualData := cv,
           particles := update_and_cull (real (unat (canvas_height ?st1)))
                          (spawned_pool (random inp) ?st1)\<rparr>)"
    by blast
  then have "animate inp st
      = (None, st\<lparr>dataArray := Some d', currentVisualData := cv,
           particles := update_and_cull (real (unat (canvas_height st))) (tick_pool inp st)\<rparr>)"
    using r assms(1) by (simp add: animate_def tick_pool_def)
  then show ?thesis by blast
qed

lemma run_append: "run (es @ fs) st = run fs (run es st)"
proof (induction es arbitrary: st)
  case Nil
  then show ?case by simp
next
  case (Cons e es)
  then show ?case by (cases e) simp_all
qed

text \<open>
  A particle that the update loop keeps alive stays in the pool through a run of
  particle-field ticks, behind what is left of the particles that were before it.
\<close>

lemma particle_follow:
  assumes "visualMode st = ''particles''" and "dataArray st = Some d"
    and "particles st = A @ q # B"
    and "\<forall>j<length js. \<not> dead (real (unat (canvas_height st))) ((update_particle ^^ Suc j) q)"
  shows "\<exists>B' d'. visualMode (run (map Frame js) st) = ''particles'' \<and>
           dataArray (run (map Frame js) st) = Some d' \<and>
           canvas_height (run (map Frame js) st) = canvas_height st \<and>
           particles (run (map Frame js) st)
             = (update_and_cull (real (unat (canvas_height st))) ^^ length js) A
                 @ (update_particle ^^ length js) q # B'"
  using assms
proof (induction js arbitrary: st d A q B)
  case Nil
  then show ?case by simp
next
  case (Cons i js)
  let ?h = "real (unat (canvas_height st))"
  obtain d' cv where tick: "animate i st
      = (None, st\<lparr>dataArray := Some d', currentVisualData := cv,
           particles := update_and_cull ?h (tick_pool i st)\<rparr>)"
    using particle_tick [OF Cons.prems(1,2)] by blast
  obtain new where new: "tick_pool i st = particles st @ new"
    using tick_pool_births [of i st] by blast
  let ?st1 = "snd (animate i st)"
  have alive: "\<not> dead ?h (update_particle q)"
    using Cons.prems(4) by auto
  have "update_and_cull ?h (tick_pool i st)
          = update_and_cull ?h A @ update_and_cull ?h [q] @ update_and_cull ?h (B @ new)"
    unfolding new Cons.prems(3) using update_and_cull_around [of ?h A q "B @ new"] by simp
  then have pool: "particles ?st1
      = update_and_cull ?h A @ update_particle q # update_and_cull ?h (B @ new)"
    using tick alive by (simp add: update_and_cull_single)
  have m: "visualMode ?st1 = ''particles''" and a: "dataArray ?st1 = Some d'"
    and c: "canvas_height ?st1 = canvas_height st"
    using tick Cons.prems(1) by simp_all
  have later: "\<forall>j<length js. \<not> dead (real (unat (canvas_height ?st1)))
                 ((update_particle ^^ Suc j) (update_particle q))"
  proof (intro allI impI)
    fix j assume "j < length js"
    then have "\<not> dead ?h ((update_particle ^^ Suc (Suc j)) q)"
      using Cons.prems(4) by auto
    then show "\<not> dead (real (unat (canvas_height ?st1)))
                 ((update_particle ^^ Suc j) (update_particle q))"
      unfolding c by (simp add: funpow_swap1)
  qed
  from Cons.IH [OF m a pool later]
  obtain B' d'' where
    "visualMode (run (map Frame js) ?st1) = ''particles''"
    "dataArray (run (map Frame js) ?st1) = Some d''"
    "canvas_height (run (map Frame js) ?st1) = canvas_height ?st1"
    "particles (run (map Frame js) ?st1)
       = (update_and_cull (real (unat (canvas_height ?st1))) ^^ length js) (update_and_cull ?h A)
           @ (update_particle ^^ length js) (update_particle q) # B'"
    by blast
  then show ?case
    unfolding c by (simp add: funpow_swap1) 
qed

text \<open>
  Claim C5.  Take a visualizer in particle mode that has a frame, and a particle \<open>p\<close> with
  life 1.0 in the pool of a tick as the update loop finds it (so also a particle that the
  spawn loop of this tick has just created), which is never below the bottom edge in its
  first 100 updates.  Then in a run of 100 particle-field ticks, whatever the frames and the
  random numbers and whatever is spawned meanwhile: after each of the ticks 1 to 99 the
  particle is in the pool, behind what is left of the particles that were before it, and
  the tick has replaced its life by \<open>life - 0.01\<close>, the binary64 difference; tick 100
  removes it, the binary64 life after 100 decrements being negative.
\<close>

theorem particle_lifetime:
  assumes "visualMode st = ''particles''" and "dataArray st = Some d"
    and "tick_pool inp st = A @ p # B" and "life p = 1"
    and "\<forall>k\<le>100. y ((update_particle ^^ k) p) \<le> real (unat (canvas_height st))"
    and "length inps = 99"
  shows "(\<forall>k<99. \<exists>B'. particles (run (map Frame (inp # take k inps)) st)
                        = (update_and_cull (real (unat (canvas_height st))) ^^ Suc k) A
                            @ (update_particle ^^ Suc k) p # B' \<and>
                      life (particles (run (map Frame (inp # take k inps)) st)
                              ! length ((update_and_cull (real (unat (canvas_height st))) ^^ Suc k) A))
                        = js_sub (life ((update_particle ^^ k) p)) (fl (1 / 100))) \<and>
         (\<exists>B' new. particles (run (map Frame (inp # take 98 inps)) st)
                      = (update_and_cull (real (unat (canvas_height st))) ^^ 99) A
                          @ (update_particle ^^ 99) p # B' \<and>
                    particles (run (map Frame (inp # inps)) st)
                      = (update_and_cull (real (unat (canvas_height st))) ^^ 100) A
                          @ update_and_cull (real (unat (canvas_height st))) (B' @ new)) \<and>
         (update_particle ^^ 100) p \<notin> set (particles (run (map Frame (inp # inps)) st))"
proof -
  let ?h = "real (unat (canvas_height st))"
  let ?uc = "update_and_cull ?h"
  from lasting_funpow [OF life_lasts_100]
  have pos: "\<And>k. k < 100 \<Longrightarrow> 0 < life ((update_particle ^^ k) p)"
    and used: "life ((update_particle ^^ 100) p) \<le> 0"
    by (simp_all add: life_funpow assms(4))
  have alive: "\<not> dead ?h ((update_particle ^^ k) p)" if "k < 100" for k
    using pos [OF that] assms(5) [rule_format, of k] that by (simp add: dead_def)
  have gone: "dead ?h ((update_particle ^^ 100) p)"
    using used by (simp add: dead_def)
  \<comment> \<open>the first tick\<close>
  obtain d1 cv where tick: "animate inp st
      = (None, st\<lparr>dataArray := Some d1, currentVisualData := cv,
           particles := ?uc (tick_pool inp st)\<rparr>)"
    using particle_tick [OF assms(1,2)] by blast
  let ?st1 = "snd (animate inp st)"
  have "\<not> dead ?h (update_particle p)" using alive [of 1] by simp
  then have pool1: "particles ?st1 = ?uc A @ update_particle p # ?uc B"
    using tick update_and_cull_around [of ?h A p B]
    by (simp add: assms(3) update_and_cull_single)
  have m1: "visualMode ?st1 = ''particles''" and a1: "dataArray ?st1 = Some d1"
    and c1: "canvas_height ?st1 = canvas_height st"
    using tick assms(1) by simp_all
  \<comment> \<open>the ticks that follow\<close>
  have follow: "\<exists>B' d'. visualMode (run (map Frame (inp # take k inps)) st) = ''particles'' \<and>
           dataArray (run (map Frame (inp # take k inps)) st) = Some d' \<and>
           canvas_height (run (map Frame (inp # take k inps)) st) = canvas_height st \<and>
           particles (run (map Frame (inp # take k inps)) st)
             = (?uc ^^ Suc k) A @ (update_particle ^^ Suc k) p # B'"
    if "k < 99" for k
  proof -
    have len: "length (take k inps) = k" using that assms(6) by simp
    have "\<forall>j<length (take k inps). \<not> dead (real (unat (canvas_height ?st1)))
            ((update_particle ^^ Suc j) (update_particle p))"
    proof (intro allI impI)
      fix j assume "j < length (take k inps)"
      then have "Suc (Suc j) < 100" using that len by simp
      from alive [OF this]
      show "\<not> dead (real (unat (canvas_height ?st1)))
              ((update_particle ^^ Suc j) (update_particle p))"
        unfolding c1 by (simp add: funpow_swap1)
    qed
    from particle_follow [OF m1 a1 pool1 this]
    show ?thesis
      unfolding c1 len by (simp add: funpow_swap1)
  qed
  have steps: "\<forall>k<99. \<exists>B'. particles (run (map Frame (inp # take k inps)) st)
                        = (?uc ^^ Suc k) A @ (update_particle ^^ Suc k) p # B' \<and>
                      life (particles (run (map Frame (inp # take k inps)) st)
                              ! length ((?uc ^^ Suc k) A))
                        = js_sub (life ((update_particle ^^ k) p)) (fl (1 / 100))"
  proof (intro allI impI)
    fix k :: nat assume "k < 99"
    from follow [OF this] obtain B' where pool:
      "particles (run (map Frame (inp # take k inps)) st)
         = (?uc ^^ Suc k) A @ (update_particle ^^ Suc k) p # B'"
      by blast
    have "particles (run (map Frame (inp # take k inps)) st) ! length ((?uc ^^ Suc k) A)
            = (update_particle ^^ Suc k) p"
      unfolding pool by (rule nth_append_length)
    then have "life (particles (run (map Frame (inp # take k inps)) st)
                       ! length ((?uc ^^ Suc k) A))
        = js_sub (life ((update_particle ^^ k) p)) (fl (1 / 100))"
      by (simp add: update_particle_def)
    with pool show "\<exists>B'. particles (run (map Frame (inp # take k inps)) st)
                        = (?uc ^^ Suc k) A @ (update_particle ^^ Suc k) p # B' \<and>
                      life (particles (run (map Frame (inp # take k inps)) st)
                              ! length ((?uc ^^ Suc k) A))
                        = js_sub (life ((update_particle ^^ k) p)) (fl (1 / 100))"
      by blast
  qed
  \<comment> \<open>tick 100\<close>
  let ?s99 = "run (map Frame (inp # take 98 inps)) st"
  obtain B' d99 where m99: "visualMode ?s99 = ''particles''" and a99: "dataArray ?s99 = Some d99"
    and c99: "canvas_height ?s99 = canvas_height st"
    and p99: "particles ?s99 = (?uc ^^ 99) A @ (update_particle ^^ 99) p # B'"
    using follow [of 98] by (auto simp add: eval_nat_numeral)
  have split: "inps = take 98 inps @ [inps ! 98]"
    using assms(6) by (metis lessI numeral_eq_Suc pred_numeral_simps(3) take_Suc_conv_app_nth take_all order_refl
        semiring_norm(26,27) Suc_numeral)
  have "map Frame (inp # inps) = map Frame (inp # take 98 inps) @ [Frame (inps ! 98)]"
    by (subst split) simp
  then have last: "run (map Frame (inp # inps)) st = snd (animate (inps ! 98) ?s99)"
    by (simp only: run_append run.simps)
  obtain d100 cv100 where tick100: "animate (inps ! 98) ?s99
      = (None, ?s99\<lparr>dataArray := Some d100, currentVisualData := cv100,
           particles := update_and_cull (real (unat (canvas_height ?s99)))
                          (tick_pool (inps ! 98) ?s99)\<rparr>)"
    using particle_tick [OF m99 a99] by blast
  obtain new where new: "tick_pool (inps ! 98) ?s99 = particles ?s99 @ new"
    using tick_pool_births [of "inps ! 98" ?s99] by blast
  have "dead ?h (update_particle ((update_particle ^^ 99) p))"
    using gone by (simp add: eval_nat_numeral)
  then have e: "?uc [(update_particle ^^ 99) p] = []"
    by (simp add: update_and_cull_single)
  have "?uc (tick_pool (inps ! 98) ?s99)
          = ?uc ((?uc ^^ 99) A) @ ?uc [(update_particle ^^ 99) p] @ ?uc (B' @ new)"
    unfolding new p99
    using update_and_cull_around [of ?h "(?uc ^^ 99) A" "(update_particle ^^ 99) p" "B' @ new"]
    by simp
  also have "?uc ((?uc ^^ 99) A) = (?uc ^^ 100) A"
    by (simp add: eval_nat_numeral)
  finally have p100: "particles (run (map Frame (inp # inps)) st)
      = (?uc ^^ 100) A @ ?uc (B' @ new)"
    unfolding last tick100 c99 e by simp
  have "\<forall>q\<in>set (particles (run (map Frame (inp # inps)) st)). \<not> dead ?h q"
    unfolding last tick100 c99 by (simp add: update_and_cull_filter)
  then have out: "(update_particle ^^ 100) p \<notin> set (particles (run (map Frame (inp # inps)) st))"
    using gone by blast
  show ?thesis using steps p99 p100 out by blast
qed

section \<open>A run that fills the pool\<close>

lemma loud_visualData:
  assumes "st = loud_particles\<lparr>currentVisualData := cv, particles := ps\<rparr>"
  shows "getVisualData st = (Inr (replicate 128 255), st\<lparr>currentVisualData := Some (replicate 128 255)\<rparr>)"
proof -
  have d: "dataArray st = Some (replicate 1024 255)" and b: "bufferLength st = Some 1024"
    using assms by (simp_all add: loud_particles_def constructed_def)
  have "toUint8 (amplified (Some 1024) (replicate 1024 255) i) = 255" if "i < 128" for i
  proof -
    have "i * 1024 div 256 < 1024" using that by simp
    then have "amplified (Some 1024) (replicate 1024 255) i = Fin (min 255 (real (3 * unat (255 :: uint8)) / 2))"
      using amplified_exact [of i 1024 "replicate 1024 255"] that by simp
    then show ?thesis by (simp add: toUint8_def js_trunc_def)
  qed
  then have "map (\<lambda>i. toUint8 (amplified (Some 1024) (replicate 1024 255) i)) [0..<128]
               = map (\<lambda>i. 255) [0..<128]"
    by (intro map_cong) simp_all
  also have "\<dots> = replicate 128 255"
    by (simp only: map_replicate_const length_upt) simp
  finally show ?thesis
    by (simp only: getVisualData_Some [OF d] b)
qed

lemma loud_spawn_step:
  assumes "st = loud_particles\<lparr>currentVisualData := Some (replicate 128 255), particles := ps\<rparr>"
  shows "spawn_loop (Suc n) (replicate 128 255) (\<lambda>k. 1 / 2) st
           = spawn_loop n (replicate 128 255) (\<lambda>k. 1 / 2) (st\<lparr>particles := ps @ [spark]\<rparr>)"
proof -
  have c: "getColor st 64 128 = Inr (Hsl (Fin 60) 100 90)"
    using assms
    by (simp add: getColor_def dataSource_def loud_particles_def constructed_def js_get_def
        Let_def js_div_def js_mul_def js_add_def fl_1 fl_40 fl_60 fl_90)
  have i: "js_mul (1 / 2) 128 = 64" by (simp add: js_mul_def fl_eval)
  have g: "js_get (replicate 128 (255 :: uint8)) 64 = Some 255" by (simp add: js_get_def)
  have w: "canvas_width st = 1000" and h: "canvas_height st = 400"
    using assms by (simp_all add: loud_particles_def constructed_def)
  have px: "js_mul (1 / 2) 1000 = 500" by (simp add: js_mul_def fl_eval)
  have pvx: "js_mul (js_sub (1 / 2) (1 / 2)) 4 = 0" by (simp add: js_mul_def js_sub_def fl_zero)
  have pvy: "js_add (js_mul (1 / 2) 5) 3 = 11 / 2" by (simp add: js_mul_def js_add_def fl_eval)
  have ps: "js_add (js_mul (1 / 2) 4) 2 = 4" by (simp add: js_mul_def js_add_def fl_eval)
  have p: "particles st = ps" using assms by simp
  show ?thesis
    by (simp add: Let_def i g c w h px pvx pvy ps p spark_def)
qed

lemma loud_spawn:
  assumes "st = loud_particles\<lparr>currentVisualData := Some (replicate 128 255), particles := ps\<rparr>"
  shows "spawn_loop 3 (replicate 128 255) (\<lambda>k. 1 / 2) st
           = (None, st\<lparr>particles := ps @ [spark, spark, spark]\<rparr>)"
proof -
  have "spawn_loop 3 (replicate 128 255) (\<lambda>k. 1 / 2) st
          = spawn_loop 2 (replicate 128 255) (\<lambda>k. 1 / 2) (st\<lparr>particles := ps @ [spark]\<rparr>)"
    using loud_spawn_step [OF assms, of 2] by (simp add: numeral_3_eq_3 numeral_2_eq_2)
  also have "\<dots> = spawn_loop 1 (replicate 128 255) (\<lambda>k. 1 / 2)
                      (st\<lparr>particles := (ps @ [spark]) @ [spark]\<rparr>)"
    using loud_spawn_step [of "st\<lparr>particles := ps @ [spark]\<rparr>" "ps @ [spark]" 1] assms
    by (simp add: numeral_2_eq_2)
  also have "\<dots> = spawn_loop 0 (replicate 128 255) (\<lambda>k. 1 / 2)
                      (st\<lparr>particles := ((ps @ [spark]) @ [spark]) @ [spark]\<rparr>)"
    using loud_spawn_step [of "st\<lparr>particles := (ps @ [spark]) @ [spark]\<rparr>"
        "(ps @ [spark]) @ [spark]" 0] assms
    by simp
  finally show ?thesis by simp
qed

lemma loud_tick:
  assumes "st = loud_particles\<lparr>currentVisualData := cv, particles := ps\<rparr>"
    and "length ps < 100"
  shows "snd (animate loud_input st)
           = loud_particles\<lparr>currentVisualData := Some (replicate 128 255),
               particles := filter (\<lambda>p. \<not> dead 400 p)
                              (map update_particle (ps @ [spark, spark, spark]))\<rparr>"
proof -
  let ?st1 = "st\<lparr>currentVisualData := Some (replicate 128 255)\<rparr>"
  have r: "refreshed loud_input st = Inr st"
    using assms(1)
    by (simp add: refreshed_def loud_input_def loud_particles_def constructed_def copy_into_def)
  have m: "visualMode st = ''particles''"
    using assms(1) by (simp add: loud_particles_def constructed_def)
  have st1: "?st1 = loud_particles\<lparr>currentVisualData := Some (replicate 128 255), particles := ps\<rparr>"
    using assms(1) by simp
  have sp: "spawn_loop 3 (replicate 128 255) (\<lambda>k. 1 / 2) ?st1
              = (None, ?st1\<lparr>particles := ps @ [spark, spark, spark]\<rparr>)"
    by (rule loud_spawn [OF st1])
  have p: "particles ?st1 = ps" using assms(1) by simp
  have h: "real (unat (canvas_height (?st1\<lparr>particles := ps @ [spark, spark, spark]\<rparr>))) = 400"
    using assms(1) by (simp add: loud_particles_def constructed_def)
  have "drawParticles (\<lambda>k. 1 / 2) st
          = (None, ?st1\<lparr>particles := update_and_cull 400 (ps @ [spark, spark, spark])\<rparr>)"
    unfolding drawParticles_def loud_visualData [OF assms(1)]
    using assms(2) by (simp only: prod.case sum.case p if_True sp option.case h) simp
  then have "snd (animate loud_input st)
          = ?st1\<lparr>particles := update_and_cull 400 (ps @ [spark, spark, spark])\<rparr>"
    using r m by (simp add: animate_def loud_input_def)
  then show ?thesis
    using assms(1) by (simp add: update_and_cull_filter)
qed

lemma spark_alive:
  assumes "a < 100"
  shows "\<not> dead 400 ((update_particle ^^ a) spark)"
proof -
  have "0 < ((\<lambda>b. js_sub b (fl (1 / 100))) ^^ a) 1"
    using lasting_funpow [OF life_lasts_100] assms by blast
  then have "0 < life ((update_particle ^^ a) spark)"
    by (simp add: life_funpow spark_def)
  moreover have "stays_on 400 100 (y spark) (vy spark)"
    using spark_stays_on by (simp add: spark_def)
  then have "y ((update_particle ^^ a) spark) \<le> 400"
    using stays_on_funpow assms by (metis less_imp_le_nat)
  ultimately show ?thesis by (simp add: dead_def)
qed

lemma loud_run:
  assumes "st = loud_particles\<lparr>currentVisualData := cv, particles := ps\<rparr>"
    and "length ps = 3 * t"
    and "\<forall>p\<in>set ps. \<exists>a. a \<le> t \<and> p = (update_particle ^^ a) spark"
    and "t + k \<le> 34"
  shows "\<exists>cv' ps'. run (replicate k (Frame loud_input)) st
                      = loud_particles\<lparr>currentVisualData := cv', particles := ps'\<rparr> \<and>
                    length ps' = 3 * (t + k)"
  using assms
proof (induction k arbitrary: st cv ps t)
  case 0
  then show ?case by auto
next
  case (Suc k)
  let ?new = "map update_particle (ps @ [spark, spark, spark])"
  have small: "length ps < 100" using Suc.prems(2,4) by simp
  have ages: "\<forall>p\<in>set ?new. \<exists>a. a \<le> Suc t \<and> p = (update_particle ^^ a) spark"
  proof
    fix p assume "p \<in> set ?new"
    then obtain q where q: "q \<in> set ps \<or> q = spark" and p: "p = update_particle q" by auto
    from q show "\<exists>a. a \<le> Suc t \<and> p = (update_particle ^^ a) spark"
    proof
      assume "q \<in> set ps"
      then obtain a where "a \<le> t" "q = (update_particle ^^ a) spark"
        using Suc.prems(3) by blast
      then have "Suc a \<le> Suc t \<and> p = (update_particle ^^ Suc a) spark"
        using p by simp
      then show ?thesis by blast
    next
      assume "q = spark"
      then have "Suc 0 \<le> Suc t \<and> p = (update_particle ^^ Suc 0) spark"
        using p by simp
      then show ?thesis by blast
    qed
  qed
  have "\<forall>p\<in>set ?new. \<not> dead 400 p"
  proof
    fix p assume "p \<in> set ?new"
    then obtain a where "a \<le> Suc t" "p = (update_particle ^^ a) spark"
      using ages by blast
    moreover have "Suc t < 100" using Suc.prems(4) by simp
    ultimately show "\<not> dead 400 p" using spark_alive [of a] by simp
  qed
  then have keep: "filter (\<lambda>p. \<not> dead 400 p) ?new = ?new"
    by (simp only: filter_True)
  have step: "snd (animate loud_input st)
      = loud_particles\<lparr>currentVisualData := Some (replicate 128 255), particles := ?new\<rparr>"
    using loud_tick [OF Suc.prems(1) small] keep by simp
  have len: "length ?new = 3 * Suc t" using Suc.prems(2) by simp
  have "t + Suc k = Suc t + k" by simp
  moreover have "Suc t + k \<le> 34" using Suc.prems(4) by simp
  ultimately show ?case
    using Suc.IH [OF step len ages] by simp
qed

text \<open>
  Claim C2 as stated fails: from an empty pool, 34 particle-field ticks on a loud frame
  leave 102 particles in the pool.  After 33 ticks the pool holds 99 particles, the guard
  lets the spawn loop run, and its three passes each add one.
\<close>

theorem pool_exceeds_100:
  "particles loud_particles = [] \<and>
   length (particles (run (replicate 34 (Frame loud_input)) loud_particles)) = 102"
proof -
  have e: "particles loud_particles = []"
    by (simp add: loud_particles_def constructed_def)
  have "loud_particles = loud_particles\<lparr>currentVisualData := None, particles := []\<rparr>"
    by (simp add: loud_particles_def constructed_def)
  from loud_run [OF this, of 0 34]
  obtain cv' ps' where "run (replicate 34 (Frame loud_input)) loud_particles
      = loud_particles\<lparr>currentVisualData := cv', particles := ps'\<rparr>" and "length ps' = 102"
    by auto
  then show ?thesis using e by simp
qed

section \<open>The first spark of a loud run\<close>

text \<open>
  The first tick of the loud run spawns three sparks into the empty pool.
\<close>

lemma loud_tick_pool:
  "tick_pool loud_input loud_particles = [spark, spark, spark]"
proof -
  have st: "loud_particles = loud_particles\<lparr>currentVisualData := None, particles := []\<rparr>"
    by (simp add: loud_particles_def constructed_def)
  let ?st1 = "loud_particles\<lparr>currentVisualData := Some (replicate 128 255)\<rparr>"
  have r: "refreshed loud_input loud_particles = Inr loud_particles"
    by (simp add: refreshed_def loud_input_def loud_particles_def constructed_def copy_into_def)
  have gv: "getVisualData loud_particles = (Inr (replicate 128 255), ?st1)"
    by (rule loud_visualData [OF st])
  have st1: "?st1 = loud_particles\<lparr>currentVisualData := Some (replicate 128 255), particles := []\<rparr>"
    by (simp add: loud_particles_def constructed_def)
  have sp: "spawn_loop 3 (replicate 128 255) (\<lambda>k. 1 / 2) ?st1
              = (None, ?st1\<lparr>particles := [] @ [spark, spark, spark]\<rparr>)"
    by (rule loud_spawn [OF st1])
  have p: "particles ?st1 = []" by (simp add: loud_particles_def constructed_def)
  have rnd: "random loud_input = (\<lambda>k. 1 / 2)" by (simp add: loud_input_def)
  have "spawned_pool (\<lambda>k. 1 / 2) loud_particles = [spark, spark, spark]"
    unfolding spawned_pool_def gv
    by (simp only: prod.case sum.case p list.size if_True sp snd_conv) simp
  then show ?thesis
    by (simp only: tick_pool_def r sum.case rnd)
qed

text \<open>
  The hypotheses of the claim on the life of a particle hold for the first of these sparks
  in a run of 100 ticks on the loud frame: it heads the pool after 99 ticks and is not in
  the pool after 100.
\<close>

theorem particle_lifetime_witness:
  "tick_pool loud_input loud_particles = [spark, spark, spark] \<and>
   (\<exists>B'. particles (run (replicate 99 (Frame loud_input)) loud_particles)
            = (update_particle ^^ 99) spark # B') \<and>
   (update_particle ^^ 100) spark
     \<notin> set (particles (run (replicate 100 (Frame loud_input)) loud_particles))"
proof -
  have m: "visualMode loud_particles = ''particles''"
    and a: "dataArray loud_particles = Some (replicate 1024 255)"
    and h: "real (unat (canvas_height loud_particles)) = 400"
    by (simp_all add: loud_particles_def constructed_def)
  have pool: "tick_pool loud_input loud_particles = [] @ spark # [spark, spark]"
    using loud_tick_pool by simp
  have l: "life spark = 1" by (simp add: spark_def)
  have "stays_on 400 100 (y spark) (vy spark)"
    using spark_stays_on by (simp add: spark_def)
  then have "\<forall>k\<le>100. y ((update_particle ^^ k) spark) \<le> 400"
    by (rule stays_on_funpow)
  then have s: "\<forall>k\<le>100. y ((update_particle ^^ k) spark)
                  \<le> real (unat (canvas_height loud_particles))"
    unfolding h .
  have n: "length (replicate 99 loud_input) = 99" by simp
  have e99: "map Frame (loud_input # take 98 (replicate 99 loud_input))
                = replicate 99 (Frame loud_input)"
    and e100: "map Frame (loud_input # replicate 99 loud_input)
                 = replicate 100 (Frame loud_input)"
    using replicate_Suc [of 98 "Frame loud_input"] replicate_Suc [of 99 "Frame loud_input"]
    by simp_all
  from particle_lifetime [OF m a pool l s n]
  have "(\<exists>B' new. particles (run (map Frame (loud_input # take 98 (replicate 99 loud_input)))
                               loud_particles)
                     = (update_and_cull (real (unat (canvas_height loud_particles))) ^^ 99) []
                         @ (update_particle ^^ 99) spark # B' \<and>
                   particles (run (map Frame (loud_input # replicate 99 loud_input)) loud_particles)
                     = (update_and_cull (real (unat (canvas_height loud_particles))) ^^ 100) []
                         @ update_and_cull (real (unat (canvas_height loud_particles))) (B' @ new))"
    and "(update_particle ^^ 100) spark
           \<notin> set (particles (run (map Frame (loud_input # replicate 99 loud_input)) loud_particles))"
    by blast+
  then show ?thesis
    unfolding e99 e100 update_and_cull_funpow_Nil using loud_tick_pool by auto
qed

end
